theory Spec2Isabelle
  imports Main "HOL-Library.Sublist" "HOL-Library.AList" "HOL-Library.List_Lexorder"
    "HOL-Library.Char_ord"
begin

section \<open>Strings\<close>

text \<open>
  A JavaScript string is modelled as a \<^typ>\<open>string\<close>, one \<^typ>\<open>char\<close> per code unit.
  The model covers ASCII text: \<open>trim\<close> removes the six ASCII white space characters
  (tab, line feed, vertical tab, form feed, carriage return, space) and \<open>toLowerCase\<close>
  maps \<open>A\<close>..\<open>Z\<close> to \<open>a\<close>..\<open>z\<close>; every other character is neither white space nor
  cased.
\<close>

definition isSpace :: "char \<Rightarrow> bool" where
  "isSpace c = (c = CHR 0x09 \<or> c = CHR 0x0A \<or> c = CHR 0x0B \<or> c = CHR 0x0C
                \<or> c = CHR 0x0D \<or> c = CHR 0x20)"

definition lowerChar :: "char \<Rightarrow> char" where
  "lowerChar c = (let n = (of_char c :: nat) in
                  if 65 \<le> n \<and> n \<le> 90 then char_of (n + 32) else c)"

definition toLowerCase :: "string \<Rightarrow> string" where
  "toLowerCase s = map lowerChar s"

definition trim :: "string \<Rightarrow> string" where
  "trim s = rev (dropWhile isSpace (rev (dropWhile isSpace s)))"

definition startsWith :: "string \<Rightarrow> string \<Rightarrow> bool" where
  "startsWith s p = prefix p s"

definition endsWith :: "string \<Rightarrow> string \<Rightarrow> bool" where
  "endsWith s p = suffix p s"

definition includesStr :: "string \<Rightarrow> string \<Rightarrow> bool" where
  "includesStr s p = sublist p s"

text \<open>\<open>s.replaceAll(c, r)\<close> for a one-character pattern and replacement, the only form
  the sources use.\<close>

definition replaceAll :: "char \<Rightarrow> char \<Rightarrow> string \<Rightarrow> string" where
  "replaceAll c r s = map (\<lambda>x. if x = c then r else x) s"

text \<open>\<open>a.indexOf(x)\<close>: the first index of \<open>x\<close>, or \<open>-1\<close>.\<close>

fun indexOf :: "'a list \<Rightarrow> 'a \<Rightarrow> int" where
  "indexOf [] x = - 1"
| "indexOf (y # ys) x =
     (if x = y then 0 else (let r = indexOf ys x in if r < 0 then - 1 else r + 1))"

text \<open>\<open>a.filter((d, i, a) => a.indexOf(d) === i)\<close>: the first occurrence of each value.\<close>

definition firstOccurrences :: "'a list \<Rightarrow> 'a list" where
  "firstOccurrences a = map (\<lambda>i. a ! i) (filter (\<lambda>i. indexOf a (a ! i) = int i) [0..<length a])"

section \<open>JSON values, errors, the host\<close>

datatype json =
    JNull
  | JBool bool
  | JNum int
  | JStr string
  | JArr "json list"
  | JObj "(string \<times> json) list"

text \<open>\<open>v?.k\<close> on a value that may be \<open>undefined\<close> (\<open>None\<close>): the own property of an
  object, \<open>undefined\<close> on everything else (none of the names read by the sources is a
  property of a primitive, of an array or of \<open>Object.prototype\<close> that the code could
  tell from \<open>undefined\<close>).\<close>

fun getProp :: "json option \<Rightarrow> string \<Rightarrow> json option" where
  "getProp (Some (JObj kvs)) k = map_of kvs k"
| "getProp _ k = None"

datatype error =
    Error string
  | SyntaxError
  | ENOTDIR
  | EISDIR
  | EEXIST
  | ENOENT
  | Exit int
  | CommandFailed string

text \<open>
  What the scripts take from the runtime: \<open>JSON.parse\<close> (\<open>None\<close> when it throws),
  \<open>JSON.stringify(v, null, 2)\<close>, \<open>String.prototype.localeCompare\<close>,
  \<open>new Date().toISOString()\<close> and \<open>process.cwd()\<close> (an absolute path with no trailing
  slash, or \<open>/\<close>).
\<close>

record host =
  parse :: "string \<Rightarrow> json option"
  stringify :: "json \<Rightarrow> string"
  localeCompare :: "string \<Rightarrow> string \<Rightarrow> int"
  now :: string
  cwd :: string

section \<open>The file system\<close>

text \<open>
  The repository is a tree of files and directories under \<open>process.cwd()\<close>; a directory
  lists its entries in the order \<open>readdirSync\<close> returns them. Symbolic links and special
  files are outside the model. A path below the root is a list of names.
\<close>

datatype node = File string | Dir "(string \<times> node) list"

type_synonym tree = "(string \<times> node) list"

fun resolve :: "tree \<Rightarrow> string list \<Rightarrow> node option" where
  "resolve es [] = Some (Dir es)"
| "resolve es (c # cs) =
     (case map_of es c of
        None \<Rightarrow> None
      | Some (File x) \<Rightarrow> (if cs = [] then Some (File x) else None)
      | Some (Dir sub) \<Rightarrow> resolve sub cs)"

text \<open>\<open>fs.accessSync(p, F_OK)\<close> succeeds.\<close>

definition exists :: "tree \<Rightarrow> string list \<Rightarrow> bool" where
  "exists es p = (resolve es p \<noteq> None)"

definition readFile :: "tree \<Rightarrow> string list \<Rightarrow> string option" where
  "readFile es p = (case resolve es p of Some (File x) \<Rightarrow> Some x | _ \<Rightarrow> None)"

text \<open>\<open>fs.mkdirSync(p, { recursive: true })\<close>: creates the missing directories (a new
  entry goes to the end of its directory's listing); a file on the way is an error.\<close>

fun mkdirp :: "string list \<Rightarrow> tree \<Rightarrow> error + tree" where
  "mkdirp [] es = Inr es"
| "mkdirp (c # cs) es =
     (case map_of es c of
        None \<Rightarrow>
          (case mkdirp cs [] of
             Inl e \<Rightarrow> Inl e
           | Inr sub \<Rightarrow> Inr (es @ [(c, Dir sub)]))
      | Some (File x) \<Rightarrow> Inl (if cs = [] then EEXIST else ENOTDIR)
      | Some (Dir sub) \<Rightarrow>
          (case mkdirp cs sub of
             Inl e \<Rightarrow> Inl e
           | Inr sub' \<Rightarrow> Inr (AList.update c (Dir sub') es)))"

text \<open>\<open>fs.writeFileSync(p, content, "utf8")\<close>: creates the file or replaces its content;
  the directory of \<open>p\<close> must exist and \<open>p\<close> must not be a directory.\<close>

fun writeFileSync :: "string list \<Rightarrow> string \<Rightarrow> tree \<Rightarrow> error + tree" where
  "writeFileSync [] content es = Inl EISDIR"
| "writeFileSync [c] content es =
     (case map_of es c of
        Some (Dir sub) \<Rightarrow> Inl EISDIR
      | _ \<Rightarrow> Inr (AList.update c (File content) es))"
| "writeFileSync (c # cs) content es =
     (case map_of es c of
        None \<Rightarrow> Inl ENOENT
      | Some (File x) \<Rightarrow> Inl ENOTDIR
      | Some (Dir sub) \<Rightarrow>
          (case writeFileSync cs content sub of
             Inl e \<Rightarrow> Inl e
           | Inr sub' \<Rightarrow> Inr (AList.update c (Dir sub') es)))"

text \<open>\<open>path.join(dir, name)\<close> for one more name, and \<open>path.relative(root, p)\<close> for a
  path \<open>p\<close> built by joining names onto \<open>root\<close>.\<close>

definition pathJoin :: "string \<Rightarrow> string \<Rightarrow> string" where
  "pathJoin dir name = (if dir = ''/'' then dir @ name else dir @ ''/'' @ name)"

definition relative :: "string \<Rightarrow> string \<Rightarrow> string" where
  "relative root p = drop (length (pathJoin root [])) p"

section \<open>The index builder (tools/build-index.mjs)\<close>

text \<open>
  \<open>findFiles\<close> walks a directory's entries and appends the matching files to \<open>out\<close>. Each
  path is kept with the content \<open>readFileSync\<close> returns for it: nothing is written
  between the walk and the reads of \<open>main\<close>.
\<close>

fun findFiles ::
  "string \<Rightarrow> tree \<Rightarrow> (string \<Rightarrow> bool) \<Rightarrow> (string \<times> string) list \<Rightarrow> (string \<times> string) list"
where
  "findFiles dir [] match out = out"
| "findFiles dir ((name, n) # es) match out =
     (let full = pathJoin dir name in
      case n of
        Dir sub \<Rightarrow> findFiles dir es match (findFiles full sub match out)
      | File content \<Rightarrow>
          findFiles dir es match (if match name then out @ [(full, content)] else out))"

text \<open>The strings of an array that are not blank:
  \<open>.filter((d) => typeof d === "string" && d.trim().length > 0)\<close>.\<close>

fun nonBlankStrings :: "json list \<Rightarrow> string list" where
  "nonBlankStrings [] = []"
| "nonBlankStrings (JStr d # xs) =
     (if length (trim d) > 0 then d # nonBlankStrings xs else nonBlankStrings xs)"
| "nonBlankStrings (x # xs) = nonBlankStrings xs"

definition stripWww :: "string \<Rightarrow> string" where
  "stripWww d = (if startsWith d ''www.'' then drop 4 d else d)"

text \<open>The default \<open>.sort()\<close> orders strings by their code units: \<^const>\<open>sort\<close> at the
  lexicographic order of \<^typ>\<open>string\<close>.\<close>

definition normalizeDomains :: "json option \<Rightarrow> string list" where
  "normalizeDomains domains =
     (case domains of
        Some (JArr ds) \<Rightarrow>
          sort (firstOccurrences
            (map stripWww (map (\<lambda>d. toLowerCase (trim d)) (nonBlankStrings ds))))
      | _ \<Rightarrow> [])"

definition normalizeKeywords :: "json option \<Rightarrow> string list" where
  "normalizeKeywords kws =
     (case kws of
        Some (JArr ks) \<Rightarrow>
          sort (firstOccurrences (map (\<lambda>k. toLowerCase (trim k)) (nonBlankStrings ks)))
      | _ \<Rightarrow> [])"

definition inferCategory :: "string \<Rightarrow> string" where
  "inferCategory metaPath =
     (let p = replaceAll (CHR 0x5C) CHR ''/'' metaPath in
      if includesStr p ''presets/votesites/'' then ''votesites''
      else if includesStr p ''presets/rewards/'' then ''rewards''
      else if includesStr p ''presets/milestones/'' then ''milestones''
      else if includesStr p ''bundles/'' then ''bundles''
      else ''other'')"

record entry =
  entry_id :: string
  category :: string
  name :: string
  description :: string
  entry_keywords :: "string list"
  domains :: "string list"
  metaPath :: string
  updatedAt :: "string option"
  verified :: bool

definition toIndexEntry :: "json \<Rightarrow> string \<Rightarrow> error + entry" where
  "toIndexEntry meta relMetaPath =
     (case getProp (Some meta) ''id'' of
        Some (JStr i) \<Rightarrow>
          if trim i = [] then Inl (Error (''Missing/invalid meta.id in '' @ relMetaPath))
          else
            (case getProp (getProp (Some meta) ''display'') ''name'' of
               Some (JStr n) \<Rightarrow>
                 if trim n = []
                 then Inl (Error (''Missing/invalid display.name in '' @ relMetaPath))
                 else Inr \<lparr>
                   entry_id = i,
                   category = inferCategory relMetaPath,
                   name = n,
                   description =
                     (case getProp (getProp (Some meta) ''display'') ''description'' of
                        Some (JStr d) \<Rightarrow> d | _ \<Rightarrow> []),
                   entry_keywords = normalizeKeywords (getProp (getProp (Some meta) ''match'') ''keywords''),
                   domains = normalizeDomains (getProp (getProp (Some meta) ''match'') ''domains''),
                   metaPath = replaceAll (CHR 0x5C) CHR ''/'' relMetaPath,
                   updatedAt =
                     (case getProp (Some meta) ''updatedAt'' of
                        Some (JStr u) \<Rightarrow> if trim u \<noteq> [] then Some u else None
                      | _ \<Rightarrow> None),
                   verified = (getProp (Some meta) ''verified'' = Some (JBool True)) \<rparr>
             | _ \<Rightarrow> Inl (Error (''Missing/invalid display.name in '' @ relMetaPath)))
      | _ \<Rightarrow> Inl (Error (''Missing/invalid meta.id in '' @ relMetaPath)))"

text \<open>The entry \<open>main\<close> builds for a file whose path ends with \<open>.bundle.json\<close>.\<close>

definition bundleEntry :: "json \<Rightarrow> string \<Rightarrow> error + entry" where
  "bundleEntry meta rel =
     (case (getProp (Some meta) ''id'', getProp (getProp (Some meta) ''display'') ''name'') of
        (Some (JStr i), Some (JStr n)) \<Rightarrow>
          Inr \<lparr>
            entry_id = i,
            category = ''bundles'',
            name = n,
            description =
              (case getProp (getProp (Some meta) ''display'') ''description'' of
                 Some (JStr d) \<Rightarrow> d | _ \<Rightarrow> []),
            entry_keywords = normalizeKeywords (getProp (Some meta) ''keywords''),
            domains = [],
            metaPath = replaceAll (CHR 0x5C) CHR ''/'' rel,
            updatedAt = (case getProp (Some meta) ''updatedAt'' of Some (JStr u) \<Rightarrow> Some u | _ \<Rightarrow> None),
            verified = (getProp (Some meta) ''verified'' = Some (JBool True)) \<rparr>
      | _ \<Rightarrow> Inl (Error (''Bundle missing id/display.name: '' @ rel)))"

text \<open>One round of the loop of \<open>main\<close> up to the entry: read, parse, project.\<close>

definition entryOf :: "host \<Rightarrow> string \<times> string \<Rightarrow> error + entry" where
  "entryOf h f =
     (let absMeta = fst f; rel = relative (cwd h) absMeta in
      case parse h (snd f) of
        None \<Rightarrow> Inl SyntaxError
      | Some meta \<Rightarrow>
          if endsWith absMeta ''.bundle.json'' then bundleEntry meta rel
          else toIndexEntry meta rel)"

text \<open>The loop of \<open>main\<close> over the files found, with its two accumulators.\<close>

fun collect ::
  "host \<Rightarrow> (string \<times> string) list \<Rightarrow> string set \<Rightarrow> entry list \<Rightarrow> error + entry list"
where
  "collect h [] seenIds entries = Inr entries"
| "collect h (f # fs) seenIds entries =
     (case entryOf h f of
        Inl e \<Rightarrow> Inl e
      | Inr en \<Rightarrow>
          if entry_id en \<in> seenIds then Inl (Error (''Duplicate id: '' @ entry_id en))
          else collect h fs (insert (entry_id en) seenIds) (entries @ [en]))"

text \<open>
  The comparator of \<open>sortEntries\<close>. \<open>category\<close> and \<open>id\<close> are strings in every entry, so
  \<open>(a.category || "")\<close> is \<open>a.category\<close>, and likewise for \<open>id\<close>.
\<close>

definition compareEntries :: "host \<Rightarrow> entry \<Rightarrow> entry \<Rightarrow> int" where
  "compareEntries h a b =
     (let c = localeCompare h (category a) (category b) in
      if c \<noteq> 0 then c else localeCompare h (entry_id a) (entry_id b))"

text \<open>
  \<open>Array.prototype.sort(cmp)\<close> is a stable sort; with a consistent comparator its result
  is the one of any stable sort. It is modelled as insertion sort: an element goes in front
  of the first later element that does not compare below it.
\<close>

fun insertBy :: "('a \<Rightarrow> 'a \<Rightarrow> int) \<Rightarrow> 'a \<Rightarrow> 'a list \<Rightarrow> 'a list" where
  "insertBy cmp x [] = [x]"
| "insertBy cmp x (y # ys) = (if cmp x y \<le> 0 then x # y # ys else y # insertBy cmp x ys)"

definition sortBy :: "('a \<Rightarrow> 'a \<Rightarrow> int) \<Rightarrow> 'a list \<Rightarrow> 'a list" where
  "sortBy cmp xs = foldr (insertBy cmp) xs []"

definition sortEntries :: "host \<Rightarrow> entry list \<Rightarrow> entry list" where
  "sortEntries h entries = sortBy (compareEntries h) entries"

record index =
  schemaVersion :: int
  generatedAt :: string
  entries :: "entry list"

text \<open>The files \<open>main\<close> finds: \<open>*.meta.json\<close> under \<open>presets\<close>, then \<open>*.bundle.json\<close> under
  \<open>bundles\<close>. \<open>readdirSync\<close> of a path that is a file throws.\<close>

definition findUnder ::
  "host \<Rightarrow> tree \<Rightarrow> string \<Rightarrow> string \<Rightarrow> error + (string \<times> string) list"
where
  "findUnder h root d suf =
     (if exists root [d] then
        (case map_of root d of
           Some (Dir sub) \<Rightarrow> Inr (findFiles (pathJoin (cwd h) d) sub (\<lambda>n. endsWith n suf) [])
         | _ \<Rightarrow> Inl ENOTDIR)
      else Inr [])"

definition discover :: "host \<Rightarrow> tree \<Rightarrow> error + (string \<times> string) list" where
  "discover h root =
     (if \<not> exists root [''presets''] \<and> \<not> exists root [''bundles''] then Inl (Exit 1)
      else
        (case findUnder h root ''presets'' ''.meta.json'' of
           Inl e \<Rightarrow> Inl e
         | Inr ms \<Rightarrow>
             (case findUnder h root ''bundles'' ''.bundle.json'' of
                Inl e \<Rightarrow> Inl e
              | Inr bs \<Rightarrow> Inr (ms @ bs))))"

text \<open>\<open>main\<close> up to the index document, and the document as the value given to
  \<open>JSON.stringify\<close>.\<close>

definition build :: "host \<Rightarrow> tree \<Rightarrow> error + index" where
  "build h root =
     (case discover h root of
        Inl e \<Rightarrow> Inl e
      | Inr metaFiles \<Rightarrow>
          (case collect h metaFiles {} [] of
             Inl e \<Rightarrow> Inl e
           | Inr es \<Rightarrow>
               Inr \<lparr> schemaVersion = 1, generatedAt = now h, entries = sortEntries h es \<rparr>))"

definition entry_json :: "entry \<Rightarrow> json" where
  "entry_json e = JObj [
     (''id'', JStr (entry_id e)),
     (''category'', JStr (category e)),
     (''name'', JStr (name e)),
     (''description'', JStr (description e)),
     (''keywords'', JArr (map JStr (entry_keywords e))),
     (''domains'', JArr (map JStr (domains e))),
     (''metaPath'', JStr (metaPath e)),
     (''updatedAt'', (case updatedAt e of Some u \<Rightarrow> JStr u | None \<Rightarrow> JNull)),
     (''verified'', JBool (verified e))]"

definition index_json :: "index \<Rightarrow> json" where
  "index_json ix = JObj [
     (''schemaVersion'', JNum (schemaVersion ix)),
     (''generatedAt'', JStr (generatedAt ix)),
     (''entries'', JArr (map entry_json (entries ix)))]"

text \<open>\<open>main\<close>: the error that ended the run, if any, and the file system it leaves.\<close>

definition main :: "host \<Rightarrow> tree \<Rightarrow> error option \<times> tree" where
  "main h root =
     (case build h root of
        Inl e \<Rightarrow> (Some e, root)
      | Inr ix \<Rightarrow>
          (case writeFileSync [''index.json''] (stringify h (index_json ix) @ [CHR 0x0A]) root of
             Inl e \<Rightarrow> (Some e, root)
           | Inr root' \<Rightarrow> (None, root')))"

section \<open>The preset generator (tools/generate-preset-from-issue.mjs)\<close>

subsection \<open>String helpers of the generator\<close>

text \<open>The line terminators, which \<open>.\<close> of a regular expression does not match.\<close>

definition isLineTerminator :: "char \<Rightarrow> bool" where
  "isLineTerminator c = (c = CHR 0x0A \<or> c = CHR 0x0D)"

text \<open>\<open>s.replace(/\/.*$/, "")\<close>: the match starts at the first slash that no line terminator
  follows, and runs to the end.\<close>

fun cutAtSlash :: "string \<Rightarrow> string" where
  "cutAtSlash [] = []"
| "cutAtSlash (c # cs) =
     (if c = CHR ''/'' \<and> \<not> list_ex isLineTerminator cs then [] else c # cutAtSlash cs)"

text \<open>\<open>normDomain(s)\<close>; \<open>String(s || "")\<close> reads \<open>undefined\<close> as the empty string.\<close>

definition normDomain :: "string option \<Rightarrow> string" where
  "normDomain s =
     (let a = toLowerCase (trim (case s of None \<Rightarrow> [] | Some x \<Rightarrow> x));
          b = (if startsWith a ''https://'' then drop 8 a
               else if startsWith a ''http://'' then drop 7 a else a);
          c = (if startsWith b ''www.'' then drop 4 b else b)
      in cutAtSlash c)"

text \<open>\<open>text.split(/\r?\n/)\<close>.\<close>

fun splitLines :: "string \<Rightarrow> string list" where
  "splitLines [] = [[]]"
| "splitLines (c # cs) =
     (if c = CHR 0x0A then [] # splitLines cs
      else if c = CHR 0x0D \<and> cs \<noteq> [] \<and> hd cs = CHR 0x0A then [] # splitLines (tl cs)
      else (case splitLines cs of
              l # ls \<Rightarrow> (c # l) # ls
            | [] \<Rightarrow> [[c]]))"

text \<open>\<open>s.split(c)\<close> for a one-character separator.\<close>

fun splitOn :: "char \<Rightarrow> string \<Rightarrow> string list" where
  "splitOn c [] = [[]]"
| "splitOn c (x # xs) =
     (if x = c then [] # splitOn c xs
      else (case splitOn c xs of
              l # ls \<Rightarrow> (x # l) # ls
            | [] \<Rightarrow> [[x]]))"

text \<open>\<open>buf.join("\n")\<close>.\<close>

fun joinLines :: "string list \<Rightarrow> string" where
  "joinLines [] = []"
| "joinLines [l] = l"
| "joinLines (l # ls) = l @ [CHR 0x0A] @ joinLines ls"

text \<open>
  \<open>ln.match(/^###\s+(.*)\s*$/)\<close>, giving the first group. After \<open>###\<close> the greedy \<open>\s+\<close>
  takes all the white space there is (at least one character) and the greedy \<open>.*\<close> runs up
  to the first line terminator; the match succeeds when only white space is left. Giving
  characters back cannot help: what is left after any shorter attempt still holds the
  character that is not white space.
\<close>

definition matchHeader :: "string \<Rightarrow> string option" where
  "matchHeader ln =
     (if startsWith ln ''###'' then
        (let rest = drop 3 ln; r = dropWhile isSpace rest in
         if r = rest then None
         else if list_all isSpace (dropWhile (\<lambda>c. \<not> isLineTerminator c) r)
              then Some (takeWhile (\<lambda>c. \<not> isLineTerminator c) r)
              else None)
      else None)"

subsection \<open>The form parser\<close>

text \<open>
  \<open>out\<close> is a plain object, modelled by its own properties. \<open>out[k] = v\<close> with a string
  \<open>v\<close> creates or replaces the own property \<open>k\<close>, except for \<open>k = "__proto__"\<close>: that
  assignment reaches the setter of \<open>Object.prototype\<close>, which ignores a value that is not
  an object, and \<open>out\<close> stays as it was.
\<close>

definition setField :: "(string \<rightharpoonup> string) \<Rightarrow> string \<Rightarrow> string \<Rightarrow> (string \<rightharpoonup> string)" where
  "setField out k v = (if k = ''__proto__'' then out else out(k \<mapsto> v))"

definition flush :: "(string \<rightharpoonup> string) \<Rightarrow> string option \<Rightarrow> string list \<Rightarrow> (string \<rightharpoonup> string)" where
  "flush out curKey buf =
     (case curKey of
        Some k \<Rightarrow> setField out k (trim (joinLines buf))
      | None \<Rightarrow> out)"

text \<open>The loop over the lines, with \<open>out\<close>, \<open>curKey\<close> and \<open>buf\<close>, and the last \<open>flush()\<close>.\<close>

fun scanLines ::
  "string list \<Rightarrow> (string \<rightharpoonup> string) \<Rightarrow> string option \<Rightarrow> string list \<Rightarrow> (string \<rightharpoonup> string)"
where
  "scanLines [] out curKey buf = flush out curKey buf"
| "scanLines (ln # lns) out curKey buf =
     (case matchHeader ln of
        Some m \<Rightarrow> scanLines lns (flush out curKey buf) (Some (trim m)) []
      | None \<Rightarrow> scanLines lns out curKey (if curKey \<noteq> None then buf @ [ln] else buf))"

definition parseIssueForm :: "string \<Rightarrow> (string \<rightharpoonup> string)" where
  "parseIssueForm body =
     (let out = scanLines (splitLines body) Map.empty None [] in
      (\<lambda>k. case out k of
             Some v \<Rightarrow> Some (if toLowerCase (trim v) = ''no response'' then [] else v)
           | None \<Rightarrow> None))"

subsection \<open>Writing files\<close>

text \<open>The names of a path below the root: \<open>path.join\<close> drops empty segments.\<close>

definition segments :: "string \<Rightarrow> string list" where
  "segments p = filter (\<lambda>s. s \<noteq> []) (splitOn CHR ''/'' p)"

text \<open>\<open>writeFile(p, content)\<close>: \<open>mkdirp(path.dirname(p))\<close>, then an unconditional
  \<open>fs.writeFileSync\<close>.\<close>

definition writeFile :: "string list \<Rightarrow> string \<Rightarrow> tree \<Rightarrow> error option \<times> tree" where
  "writeFile p content root =
     (case mkdirp (butlast p) root of
        Inl e \<Rightarrow> (Some e, root)
      | Inr root1 \<Rightarrow>
          (case writeFileSync p content root1 of
             Inl e \<Rightarrow> (Some e, root1)
           | Inr root2 \<Rightarrow> (None, root2)))"

definition isBoolStr :: "string \<Rightarrow> bool" where
  "isBoolStr s = (let v = toLowerCase (trim s) in v = ''true'' \<or> v = ''false'')"

definition isDigit :: "char \<Rightarrow> bool" where
  "isDigit c = (let n = (of_char c :: nat) in 48 \<le> n \<and> n \<le> 57)"

definition isIntStr :: "string \<Rightarrow> bool" where
  "isIntStr s = (trim s \<noteq> [] \<and> list_all isDigit (trim s))"

subsection \<open>The two kinds of request\<close>

text \<open>\<open>(fields[k] || "")\<close>: none of the labels read is a property of \<open>Object.prototype\<close>.\<close>

definition fieldOr :: "(string \<rightharpoonup> string) \<Rightarrow> string \<Rightarrow> string" where
  "fieldOr fields' k = (case fields' k of Some v \<Rightarrow> v | None \<Rightarrow> [])"

text \<open>The loop over \<open>extraDomainsRaw.split(",")\<close>.\<close>

fun addDomains :: "string list \<Rightarrow> string list \<Rightarrow> string list" where
  "addDomains [] domains' = domains'"
| "addDomains (d # ds) domains' =
     (let nd = normDomain (Some d) in
      addDomains ds (if nd \<noteq> [] \<and> \<not> List.member domains' nd then domains' @ [nd] else domains'))"

definition placeholder :: "string \<Rightarrow> string \<Rightarrow> json" where
  "placeholder label dflt =
     JObj [(''type'', JStr ''string''), (''label'', JStr label), (''default'', JStr dflt)]"

text \<open>The dash of the last label is U+2013, written here in UTF-8.\<close>

definition votesitePlaceholders ::
  "string \<Rightarrow> string \<Rightarrow> string \<Rightarrow> string \<Rightarrow> string \<Rightarrow> string \<Rightarrow> string \<Rightarrow> string \<Rightarrow> json"
where
  "votesitePlaceholders siteKey displayName serviceSite voteUrlDefault voteDelay waitUntil daily
       dailyHour =
     JObj [
       (''siteKey'', placeholder ''VoteSite key'' siteKey),
       (''displayName'', placeholder ''VoteSite display name'' displayName),
       (''serviceSite'', placeholder ''ServiceSite'' serviceSite),
       (''voteURL'', placeholder ''Vote URL'' voteUrlDefault),
       (''voteDelay'', placeholder ''VoteDelay (blank = omit)'' voteDelay),
       (''waitUntilVoteDelay'',
          placeholder ''WaitUntilVoteDelay (true/false, blank = omit)''
            (if isBoolStr waitUntil then toLowerCase waitUntil else [])),
       (''voteDelayDaily'',
          placeholder ''VoteDelayDaily (true/false, blank = omit)''
            (if isBoolStr daily then toLowerCase daily else [])),
       (''voteDelayDailyHour'',
          placeholder (''VoteDelayDailyHour (0'' @ [CHR 0xE2, CHR 0x80, CHR 0x93]
                         @ ''23, blank = omit)'')
            (if isIntStr dailyHour then dailyHour else []))]"

text \<open>The \<open>votesite\<close> branch of \<open>main\<close> up to its write: the checks, then the path below
  the root and the document.\<close>

definition votesiteRequest :: "(string \<rightharpoonup> string) \<Rightarrow> error + (string list \<times> json)" where
  "votesiteRequest fields' =
     (let domain = normDomain (fields' ''Domain (no protocol)'');
          extraDomainsRaw = fields' ''Extra domains (comma separated)'';
          presetId = trim (fieldOr fields' ''Preset ID'');
          siteKey = trim (fieldOr fields' ''VoteSite key (siteKey)'');
          displayName = trim (fieldOr fields' ''Display name (displayName)'');
          serviceSite = trim (fieldOr fields' ''ServiceSite (required)'');
          voteUrlDefault =
            (if trim (fieldOr fields' ''Default VoteURL placeholder'') \<noteq> []
             then trim (fieldOr fields' ''Default VoteURL placeholder'')
             else ''ADD_VOTE_URL_LATER'');
          voteDelay = trim (fieldOr fields' ''VoteDelay (optional)'');
          waitUntil = trim (fieldOr fields' ''WaitUntilVoteDelay (optional)'');
          daily = trim (fieldOr fields' ''VoteDelayDaily (optional)'');
          dailyHour = trim (fieldOr fields' ''VoteDelayDailyHour (optional)'')
      in
      if domain = [] then Inl (Error ''Domain is required'')
      else if \<not> startsWith presetId ''votesite:''
        then Inl (Error ''Preset ID must start with votesite:'')
      else if siteKey = [] then Inl (Error ''siteKey is required'')
      else if displayName = [] then Inl (Error ''displayName is required'')
      else if serviceSite = [] then Inl (Error ''serviceSite is required'')
      else
        (let domains' =
               (case extraDomainsRaw of
                  None \<Rightarrow> [domain]
                | Some raw \<Rightarrow>
                    if raw = [] then [domain] else addDomains (splitOn CHR '','' raw) [domain]);
             slug = replaceAll CHR ''.'' CHR ''_'' domain;
             metaPath' = [''presets'', ''votesites''] @ segments (slug @ ''.meta.json'');
             meta = JObj [
               (''schemaVersion'', JNum 1),
               (''id'', JStr presetId),
               (''display'', JObj [
                  (''name'', JStr (displayName @ '' (generic)'')),
                  (''description'', JStr (''Generic '' @ displayName @ '' VoteSite preset.''))]),
               (''match'', JObj [
                  (''domains'', JArr (map JStr domains')),
                  (''keywords'', JArr [JStr (toLowerCase siteKey), JStr (toLowerCase displayName)])]),
               (''placeholders'',
                  votesitePlaceholders siteKey displayName serviceSite voteUrlDefault voteDelay
                    waitUntil daily dailyHour),
               (''fragments'', JArr [
                  JObj [(''path'', JStr ''presets/votesites/generic.votesites.yml''),
                        (''mergeInto'', JStr ''VoteSites'')]]),
               (''verified'', JBool False)]
         in Inr (metaPath', meta)))"

text \<open>The \<open>reward\<close> branch of \<open>main\<close> up to its writes: the checks, then the two paths
  below the root with the document and the fragment.\<close>

definition rewardRequest ::
  "(string \<rightharpoonup> string) \<Rightarrow> error + ((string list \<times> json) \<times> (string list \<times> string))"
where
  "rewardRequest fields' =
     (let presetId = trim (fieldOr fields' ''Preset ID'');
          displayName = trim (fieldOr fields' ''Display name'');
          rewardType = toLowerCase (trim (fieldOr fields' ''Reward type''));
          lines = trim (fieldOr fields' ''Default lines (one per line)'')
      in
      if \<not> startsWith presetId ''reward:'' then Inl (Error ''Preset ID must start with reward:'')
      else if displayName = [] then Inl (Error ''display name is required'')
      else if rewardType \<noteq> ''commands'' \<and> rewardType \<noteq> ''messages''
        then Inl (Error ''Reward type must be commands or messages'')
      else if lines = [] then Inl (Error ''Default lines required'')
      else
        (let slug = replaceAll CHR ''/'' CHR ''_'' (replaceAll CHR '':'' CHR ''_'' presetId);
             metaPath' = [''presets'', ''rewards'', slug @ ''.meta.json''];
             ymlPath = [''presets'', ''rewards'', slug @ ''.rewardblock.yml''];
             placeholderKey = (if rewardType = ''commands'' then ''commands'' else ''messages'');
             blockKey = (if rewardType = ''commands'' then ''commandsBlock'' else ''messagesBlock'');
             headerKey = (if rewardType = ''commands'' then ''Commands'' else ''Messages'');
             meta = JObj [
               (''schemaVersion'', JNum 1),
               (''id'', JStr presetId),
               (''display'', JObj [
                  (''name'', JStr displayName),
                  (''description'',
                     JStr (''Inline Reward ('' @ rewardType
                           @ '') merged into VoteSites.<siteKey>.Rewards.''))]),
               (''match'', JObj [
                  (''keywords'', JArr [JStr ''reward'', JStr ''inline'', JStr rewardType])]),
               (''placeholders'', JObj [
                  (placeholderKey, placeholder (headerKey @ '' (one per line)'') lines)]),
               (''fragments'', JArr [
                  JObj [(''path'', JStr (''presets/rewards/'' @ last ymlPath)),
                        (''mergeInto'', JStr ''VoteSites.<siteKey>.Rewards'')]]),
               (''verified'', JBool False)];
             yml = headerKey @ '':'' @ [CHR 0x0A] @ ''<'' @ blockKey @ ''>'' @ [CHR 0x0A]
         in Inr ((metaPath', meta), (ymlPath, yml))))"

subsection \<open>\<open>main\<close> of the generator\<close>

record env =
  ISSUE_NUMBER :: "string option"
  ISSUE_TITLE :: "string option"
  ISSUE_BODY :: "string option"
  PRESET_KIND :: "string option"

text \<open>\<open>process.env.X || ""\<close>.\<close>

definition orEmpty :: "string option \<Rightarrow> string" where
  "orEmpty v = (case v of Some s \<Rightarrow> s | None \<Rightarrow> [])"

definition presetKind :: "env \<Rightarrow> string" where
  "presetKind e =
     (if orEmpty (PRESET_KIND e) \<noteq> [] then orEmpty (PRESET_KIND e)
      else if includesStr (toLowerCase (orEmpty (ISSUE_TITLE e))) ''reward'' then ''reward''
      else ''votesite'')"

text \<open>The writes of the two branches.\<close>

definition writePreset :: "host \<Rightarrow> string \<Rightarrow> (string \<rightharpoonup> string) \<Rightarrow> tree \<Rightarrow> error option \<times> tree" where
  "writePreset h kind fields' root =
     (if kind = ''votesite'' then
        (case votesiteRequest fields' of
           Inl e \<Rightarrow> (Some e, root)
         | Inr (metaPath', meta) \<Rightarrow> writeFile metaPath' (stringify h meta @ [CHR 0x0A]) root)
      else
        (case rewardRequest fields' of
           Inl e \<Rightarrow> (Some e, root)
         | Inr ((metaPath', meta), (ymlPath, yml)) \<Rightarrow>
             (case writeFile metaPath' (stringify h meta @ [CHR 0x0A]) root of
                (Some e, root1) \<Rightarrow> (Some e, root1)
              | (None, root1) \<Rightarrow> writeFile ymlPath yml root1)))"

text \<open>
  \<open>main\<close> of the generator (\<open>main\<close> above is the one of the index builder): the error
  that ended the run, if any, and the file system it leaves. \<open>execSync("node tools/build-index.mjs")\<close> runs \<open>main\<close> of the index builder in
  the same directory and throws when that run fails.
\<close>

definition generatorMain :: "host \<Rightarrow> env \<Rightarrow> tree \<Rightarrow> error option \<times> tree" where
  "generatorMain h e root =
     (if orEmpty (ISSUE_NUMBER e) = [] then (Some (Error ''Missing ISSUE_NUMBER env var''), root)
      else
        (let fields' = parseIssueForm (orEmpty (ISSUE_BODY e));
             kind = presetKind e
         in case writePreset h kind fields' root of
              (Some err, root1) \<Rightarrow> (Some err, root1)
            | (None, root1) \<Rightarrow>
                (case main h root1 of
                   (Some err, root2) \<Rightarrow> (Some (CommandFailed ''node tools/build-index.mjs''), root2)
                 | (None, root2) \<Rightarrow> (None, root2))))"

section \<open>Notions of the specification\<close>

text \<open>The id of a document as \<open>main\<close> reads it: the string under \<open>id\<close> of the parsed
  content, if there is one.\<close>

definition docId :: "host \<Rightarrow> string \<times> string \<Rightarrow> string option" where
  "docId h f =
     (case parse h (snd f) of
        None \<Rightarrow> None
      | Some meta \<Rightarrow> (case getProp (Some meta) ''id'' of Some (JStr i) \<Rightarrow> Some i | _ \<Rightarrow> None))"

text \<open>The five category names.\<close>

definition categories :: "string set" where
  "categories = {''votesites'', ''rewards'', ''milestones'', ''bundles'', ''other''}"

text \<open>A consistent comparator, as \<open>Array.prototype.sort\<close> expects it: the sign of
  \<open>cmp a b\<close> is a total preorder.\<close>

definition consistentComparator :: "('a \<Rightarrow> 'a \<Rightarrow> int) \<Rightarrow> bool" where
  "consistentComparator cmp =
     ((\<forall>a b. (cmp a b < 0) = (cmp b a > 0)) \<and>
      (\<forall>a b c. cmp a b \<le> 0 \<longrightarrow> cmp b c \<le> 0 \<longrightarrow> cmp a c \<le> 0))"

text \<open>The first value of a list that is in \<open>seen\<close> or occurred earlier in the list.\<close>

fun firstDuplicate :: "string list \<Rightarrow> string set \<Rightarrow> string option" where
  "firstDuplicate [] seen = None"
| "firstDuplicate (x # xs) seen =
     (if x \<in> seen then Some x else firstDuplicate xs (insert x seen))"

text \<open>A comparator tells the strings of a set apart.\<close>

definition separates :: "(string \<Rightarrow> string \<Rightarrow> int) \<Rightarrow> string set \<Rightarrow> bool" where
  "separates cmp S = (\<forall>a\<in>S. \<forall>b\<in>S. cmp a b = 0 \<longrightarrow> a = b)"

text \<open>A line matches \<open>/^###\s+(.*)\s*$/\<close> with \<open>w\<close> for \<open>\s+\<close>, \<open>x\<close> for the group and
  \<open>s\<close> for \<open>\s*\<close>.\<close>

definition headerMatch :: "string \<Rightarrow> string \<Rightarrow> string \<Rightarrow> string \<Rightarrow> bool" where
  "headerMatch ln w x s =
     (ln = ''###'' @ w @ x @ s \<and> w \<noteq> [] \<and> list_all isSpace w
      \<and> list_all (\<lambda>c. \<not> isLineTerminator c) x \<and> list_all isSpace s)"

text \<open>The sections of a form: each header line with its trimmed field name and the lines
  up to the next header.\<close>

fun sections :: "string list \<Rightarrow> (string \<times> string list) list" where
  "sections [] = []"
| "sections (ln # lns) =
     (case matchHeader ln of
        Some m \<Rightarrow> (trim m, takeWhile (\<lambda>l. matchHeader l = None) lns) # sections lns
      | None \<Rightarrow> sections lns)"

text \<open>The value of a field: the body lines joined by newline and trimmed, the empty string
  for the answer \<open>no response\<close>.\<close>

definition formValue :: "string list \<Rightarrow> string" where
  "formValue body =
     (let v = trim (joinLines body) in if toLowerCase (trim v) = ''no response'' then [] else v)"

text \<open>One section stored in the parsed form, as \<open>flush\<close> stores it.\<close>

definition putSection :: "(string \<rightharpoonup> string) \<Rightarrow> string \<times> string list \<Rightarrow> (string \<rightharpoonup> string)" where
  "putSection out s = setField out (fst s) (trim (joinLines (snd s)))"

text \<open>The names of the placeholders of a document, in order, and the default of one.\<close>

definition slotNames :: "json \<Rightarrow> string list" where
  "slotNames meta =
     (case getProp (Some meta) ''placeholders'' of Some (JObj ps) \<Rightarrow> map fst ps | _ \<Rightarrow> [])"

definition defaultOf :: "json \<Rightarrow> string \<Rightarrow> json option" where
  "defaultOf meta slot = getProp (getProp (getProp (Some meta) ''placeholders'') slot) ''default''"

section \<open>An example repository\<close>

text \<open>
  A host for closed instances: \<open>localeCompare\<close> compares code units, \<open>JSON.parse\<close> knows
  four documents by the name that stands for their text, and \<open>JSON.stringify\<close> prints
  every value as \<open>{}\<close>.
\<close>

definition compareStrings :: "string \<Rightarrow> string \<Rightarrow> int" where
  "compareStrings a b = (if a < b then - 1 else if a = b then 0 else 1)"

definition exampleDocs :: "(string \<times> json) list" where
  "exampleDocs = [
     (''votesite-doc'', JObj [
        (''id'', JStr ''votesite:example''),
        (''display'', JObj [(''name'', JStr ''Example'')]),
        (''match'', JObj [
           (''domains'', JArr [JStr ''WWW.Example.com '', JStr ''example.com'',
                               JStr ''www.www.example.org'']),
           (''keywords'', JArr [JStr ''Foo'', JStr '' foo''])])]),
     (''pack-doc'', JObj [
        (''id'', JStr ''reward:pack''),
        (''display'', JObj [(''name'', JStr ''Pack'')])]),
     (''bundle-doc'', JObj [
        (''id'', JStr ''bundle:starter''),
        (''display'', JObj [(''name'', JStr ''Starter'')])]),
     (''copy-doc'', JObj [
        (''id'', JStr ''votesite:example''),
        (''display'', JObj [(''name'', JStr ''Copy'')])])]"

definition exampleHost :: host where
  "exampleHost = \<lparr>
     parse = map_of exampleDocs,
     stringify = (\<lambda>v. ''{}''),
     localeCompare = compareStrings,
     now = ''2024-01-01T00:00:00.000Z'',
     cwd = ''/repo'' \<rparr>"

definition exampleTree :: tree where
  "exampleTree = [
     (''presets'', Dir [
        (''votesites'', Dir [(''example_com.meta.json'', File ''votesite-doc'')]),
        (''bundles'', Dir [(''pack.meta.json'', File ''pack-doc'')])]),
     (''bundles'', Dir [(''starter.bundle.json'', File ''bundle-doc'')])]"

definition duplicateTree :: tree where
  "duplicateTree = [
     (''presets'', Dir [
        (''votesites'', Dir [
           (''a.meta.json'', File ''votesite-doc''),
           (''b.meta.json'', File ''copy-doc'')])]),
     (''index.json'', File ''old index'')]"

text \<open>The index of \<open>exampleTree\<close>.\<close>

definition starterEntry :: entry where
  "starterEntry = \<lparr> entry_id = ''bundle:starter'', category = ''bundles'', name = ''Starter'',
     description = [], entry_keywords = [], domains = [],
     metaPath = ''bundles/starter.bundle.json'', updatedAt = None, verified = False \<rparr>"

definition packEntry :: entry where
  "packEntry = \<lparr> entry_id = ''reward:pack'', category = ''bundles'', name = ''Pack'',
     description = [], entry_keywords = [], domains = [],
     metaPath = ''presets/bundles/pack.meta.json'', updatedAt = None, verified = False \<rparr>"

definition votesiteEntry :: entry where
  "votesiteEntry = \<lparr> entry_id = ''votesite:example'', category = ''votesites'', name = ''Example'',
     description = [], entry_keywords = [''foo''],
     domains = [''example.com'', ''www.example.org''],
     metaPath = ''presets/votesites/example_com.meta.json'', updatedAt = None,
     verified = False \<rparr>"

definition exampleIndex :: index where
  "exampleIndex = \<lparr> schemaVersion = 1, generatedAt = ''2024-01-01T00:00:00.000Z'',
     entries = [starterEntry, packEntry, votesiteEntry] \<rparr>"

text \<open>
  A host whose \<open>localeCompare\<close> looks at the letters before their case, as the collation
  of \<open>String.prototype.localeCompare\<close> does (\<open>apple\<close> before \<open>Banana\<close>, and \<open>a\<close> before
  \<open>A\<close>), and a repository with two presets whose ids differ in the case of a letter.
\<close>

definition compareFolded :: "string \<Rightarrow> string \<Rightarrow> int" where
  "compareFolded a b =
     (if toLowerCase a < toLowerCase b then - 1
      else if toLowerCase b < toLowerCase a then 1
      else if a = b then 0
      else if b < a then - 1 else 1)"

definition foldedDocs :: "(string \<times> json) list" where
  "foldedDocs = [
     (''banana-doc'', JObj [
        (''id'', JStr ''votesite:Banana''),
        (''display'', JObj [(''name'', JStr ''Banana'')])]),
     (''apple-doc'', JObj [
        (''id'', JStr ''votesite:apple''),
        (''display'', JObj [(''name'', JStr ''Apple'')])])]"

definition foldedHost :: host where
  "foldedHost = exampleHost\<lparr> parse := map_of foldedDocs, localeCompare := compareFolded \<rparr>"

definition foldedTree :: tree where
  "foldedTree = [
     (''presets'', Dir [
        (''votesites'', Dir [
           (''banana.meta.json'', File ''banana-doc''),
           (''apple.meta.json'', File ''apple-doc'')])])]"

text \<open>Two requests: a VoteSite form for \<open>example.com\<close>, whose preset file is already in
  \<open>exampleTree\<close>, and a Reward form of type \<open>music\<close>.\<close>

definition lf :: string where
  "lf = [CHR 0x0A]"

definition votesiteBody :: string where
  "votesiteBody =
     ''### Domain (no protocol)'' @ lf @ ''example.com'' @ lf
     @ ''### Preset ID'' @ lf @ ''votesite:example'' @ lf
     @ ''### VoteSite key (siteKey)'' @ lf @ ''Example'' @ lf
     @ ''### Display name (displayName)'' @ lf @ ''Example Site'' @ lf
     @ ''### ServiceSite (required)'' @ lf @ ''ExampleService'' @ lf
     @ ''### VoteDelay (optional)'' @ lf @ ''abc'' @ lf
     @ ''### WaitUntilVoteDelay (optional)'' @ lf @ ''TRUE'' @ lf
     @ ''### VoteDelayDaily (optional)'' @ lf @ ''yes'' @ lf
     @ ''### VoteDelayDailyHour (optional)'' @ lf @ ''7'' @ lf
     @ ''### Extra domains (comma separated)'' @ lf @ ''No response''"

definition votesiteEnv :: env where
  "votesiteEnv = \<lparr> ISSUE_NUMBER = Some ''12'', ISSUE_TITLE = Some ''Add VoteSite: Example'',
     ISSUE_BODY = Some votesiteBody, PRESET_KIND = None \<rparr>"

definition votesiteDoc :: json where
  "votesiteDoc = JObj [
     (''schemaVersion'', JNum 1),
     (''id'', JStr ''votesite:example''),
     (''display'', JObj [
        (''name'', JStr ''Example Site (generic)''),
        (''description'', JStr ''Generic Example Site VoteSite preset.'')]),
     (''match'', JObj [
        (''domains'', JArr [JStr ''example.com'']),
        (''keywords'', JArr [JStr ''example'', JStr ''example site''])]),
     (''placeholders'', JObj [
        (''siteKey'', placeholder ''VoteSite key'' ''Example''),
        (''displayName'', placeholder ''VoteSite display name'' ''Example Site''),
        (''serviceSite'', placeholder ''ServiceSite'' ''ExampleService''),
        (''voteURL'', placeholder ''Vote URL'' ''ADD_VOTE_URL_LATER''),
        (''voteDelay'', placeholder ''VoteDelay (blank = omit)'' ''abc''),
        (''waitUntilVoteDelay'',
           placeholder ''WaitUntilVoteDelay (true/false, blank = omit)'' ''true''),
        (''voteDelayDaily'', placeholder ''VoteDelayDaily (true/false, blank = omit)'' []),
        (''voteDelayDailyHour'',
           placeholder (''VoteDelayDailyHour (0'' @ [CHR 0xE2, CHR 0x80, CHR 0x93]
                          @ ''23, blank = omit)'') ''7'')]),
     (''fragments'', JArr [
        JObj [(''path'', JStr ''presets/votesites/generic.votesites.yml''),
              (''mergeInto'', JStr ''VoteSites'')]]),
     (''verified'', JBool False)]"

definition rewardBody :: string where
  "rewardBody =
     ''### Preset ID'' @ lf @ ''reward:music'' @ lf
     @ ''### Display name'' @ lf @ ''Music'' @ lf
     @ ''### Reward type'' @ lf @ ''music'' @ lf
     @ ''### Default lines (one per line)'' @ lf @ ''play cat''"

definition rewardEnv :: env where
  "rewardEnv = \<lparr> ISSUE_NUMBER = Some ''13'', ISSUE_TITLE = Some ''Add Reward: Music'',
     ISSUE_BODY = Some rewardBody, PRESET_KIND = Some ''reward'' \<rparr>"

section \<open>Properties of the index builder\<close>

subsection \<open>Trimming and lower case\<close>

lemma isSpace_code: "isSpace c = (of_char c \<in> {9, 10, 11, 12, 13, 32 :: nat})"
proof -
  have e: "\<And>d. (c = d) = ((of_char c :: nat) = of_char d)" by simp
  show ?thesis unfolding isSpace_def e by (simp del: of_char_eq_iff)
qed

lemma lowerChar_idem: "lowerChar (lowerChar c) = lowerChar c"
  by (simp add: lowerChar_def Let_def)

lemma isSpace_lowerChar: "isSpace (lowerChar c) = isSpace c"
  by (auto simp add: isSpace_code lowerChar_def Let_def)

lemma toLowerCase_idem: "toLowerCase (toLowerCase s) = toLowerCase s"
  by (simp add: toLowerCase_def lowerChar_idem)

lemma dropWhile_map_lower:
  "dropWhile isSpace (map lowerChar s) = map lowerChar (dropWhile isSpace s)"
  by (induction s) (simp_all add: isSpace_lowerChar)

lemma trim_lower: "trim (toLowerCase s) = toLowerCase (trim s)"
  by (simp only: trim_def toLowerCase_def dropWhile_map_lower rev_map)

lemma dropWhile_hd: "xs \<noteq> [] \<Longrightarrow> \<not> P (hd xs) \<Longrightarrow> dropWhile P xs = xs"
  by (cases xs) auto

lemma trim_fixed:
  assumes "s \<noteq> []" "\<not> isSpace (hd s)" "\<not> isSpace (last s)"
  shows "trim s = s"
proof -
  have 1: "dropWhile isSpace s = s" using assms by (simp add: dropWhile_hd)
  have "hd (rev s) = last s" using assms by (simp add: hd_rev)
  then have 2: "dropWhile isSpace (rev s) = rev s" using assms by (simp add: dropWhile_hd)
  show ?thesis by (simp add: trim_def 1 2)
qed

lemma last_dropWhile: "dropWhile P xs \<noteq> [] \<Longrightarrow> last (dropWhile P xs) = last xs"
  by (induction xs) (auto split: if_splits)

lemma trim_ends:
  assumes "trim s \<noteq> []"
  shows "\<not> isSpace (hd (trim s))" and "\<not> isSpace (last (trim s))"
proof -
  define t where "t = dropWhile isSpace s"
  define u where "u = dropWhile isSpace (rev t)"
  have tr: "trim s = rev u" by (simp add: trim_def t_def u_def)
  with assms have u: "u \<noteq> []" by simp
  then have hu: "\<not> isSpace (hd u)" unfolding u_def by (rule hd_dropWhile)
  from u have t: "t \<noteq> []" unfolding u_def by auto
  then have ht: "\<not> isSpace (hd t)" unfolding t_def by (rule hd_dropWhile)
  have "last u = last (rev t)" using u unfolding u_def by (rule last_dropWhile)
  also have "\<dots> = hd t" using t by (simp add: last_rev)
  finally have lu: "\<not> isSpace (last u)" using ht by simp
  show "\<not> isSpace (hd (trim s))" using lu u by (simp add: tr hd_rev)
  show "\<not> isSpace (last (trim s))" using hu u by (simp add: tr last_rev)
qed

lemma trim_Nil: "trim [] = []"
  by (simp add: trim_def)

lemma trim_idem: "trim (trim s) = trim s"
proof (cases "trim s = []")
  case True
  then show ?thesis by (simp add: trim_Nil)
next
  case False
  then show ?thesis using trim_ends[of s] by (simp add: trim_fixed)
qed

subsection \<open>Normalised lists\<close>

lemma distinct_firstOccurrences: "distinct (firstOccurrences a)"
proof -
  define S where "S = {i. i < length a \<and> indexOf a (a ! i) = int i}"
  have inj: "inj_on (\<lambda>i. a ! i) S"
  proof (rule inj_onI)
    fix i j assume i: "i \<in> S" and j: "j \<in> S" and eq: "a ! i = a ! j"
    from i have 1: "indexOf a (a ! i) = int i" by (simp add: S_def)
    from j have 2: "indexOf a (a ! j) = int j" by (simp add: S_def)
    from 1 have "indexOf a (a ! j) = int i" by (simp only: eq)
    with 2 show "i = j" by simp
  qed
  have "set (filter (\<lambda>i. indexOf a (a ! i) = int i) [0..<length a]) = S"
    by (auto simp add: S_def)
  with inj show ?thesis
    unfolding firstOccurrences_def by (simp only: distinct_map distinct_filter distinct_upt simp_thms)
qed

lemma set_firstOccurrences: "set (firstOccurrences a) \<subseteq> set a"
  unfolding firstOccurrences_def by auto

lemma toLowerCase_drop: "toLowerCase (drop n s) = drop n (toLowerCase s)"
  by (simp add: toLowerCase_def drop_map)

lemma stripWww_lower:
  "toLowerCase t = t \<Longrightarrow> toLowerCase (stripWww t) = stripWww t"
  by (simp add: stripWww_def toLowerCase_drop)

lemma trim_lower_trim: "trim (toLowerCase (trim x)) = toLowerCase (trim x)"
  by (simp add: trim_lower trim_idem)

lemma keyword_value: "toLowerCase (trim (toLowerCase (trim x))) = toLowerCase (trim x)"
  by (simp add: trim_lower_trim toLowerCase_idem)

lemma domain_value_lower: "toLowerCase (stripWww (toLowerCase (trim x))) = stripWww (toLowerCase (trim x))"
  by (simp add: stripWww_lower toLowerCase_idem)

lemma domain_value_fixed:
  assumes d: "d = stripWww (toLowerCase (trim x))"
    and w: "\<not> startsWith d ''www.''"
    and sp: "d = [] \<or> \<not> isSpace (hd d)"
  shows "stripWww (toLowerCase (trim d)) = d"
proof (cases "d = []")
  case True
  then show ?thesis using w by (simp add: trim_Nil toLowerCase_def stripWww_def)
next
  case False
  define t where "t = toLowerCase (trim x)"
  have tt: "t = trim (toLowerCase x)" by (simp add: t_def trim_lower)
  have dt: "d = t \<or> d = drop 4 t" using d by (simp add: stripWww_def t_def split: if_splits)
  have tne: "t \<noteq> []" using dt False by auto
  then have lt: "\<not> isSpace (last t)" using trim_ends(2)[of "toLowerCase x"] by (simp add: tt)
  have "last d = last t" using dt False by (auto simp add: last_drop)
  then have "\<not> isSpace (last d)" using lt by simp
  then have 1: "trim d = d" using False sp by (simp add: trim_fixed)
  have 2: "toLowerCase d = d" unfolding d by (rule domain_value_lower)
  show ?thesis using w by (simp add: 1 2 stripWww_def)
qed

lemma normalizeDomains_arr:
  "normalizeDomains (Some (JArr ds)) =
     sort (firstOccurrences (map stripWww (map (\<lambda>d. toLowerCase (trim d)) (nonBlankStrings ds))))"
  by (simp add: normalizeDomains_def)

lemma normalizeDomains_cases: "(\<exists>ds. j = Some (JArr ds)) \<or> normalizeDomains j = []"
proof (cases j)
  case None
  then show ?thesis by (simp add: normalizeDomains_def)
next
  case (Some v)
  then show ?thesis by (cases v) (simp_all add: normalizeDomains_def)
qed

lemma normalizeKeywords_arr:
  "normalizeKeywords (Some (JArr ks)) =
     sort (firstOccurrences (map (\<lambda>k. toLowerCase (trim k)) (nonBlankStrings ks)))"
  by (simp add: normalizeKeywords_def)

lemma normalizeKeywords_cases: "(\<exists>ks. j = Some (JArr ks)) \<or> normalizeKeywords j = []"
proof (cases j)
  case None
  then show ?thesis by (simp add: normalizeKeywords_def)
next
  case (Some v)
  then show ?thesis by (cases v) (simp_all add: normalizeKeywords_def)
qed

lemma distinct_sort_first: "distinct (sort (firstOccurrences (X :: string list)))"
  by (simp only: distinct_sort distinct_firstOccurrences)

lemma set_sort_first: "d \<in> set (sort (firstOccurrences (X :: string list))) \<Longrightarrow> d \<in> set X"
  using set_firstOccurrences[of X] by (simp only: set_sort) blast

lemma normalizeDomains_distinct: "distinct (normalizeDomains j)"
proof -
  from normalizeDomains_cases[of j] show ?thesis
  proof
    assume "\<exists>ds. j = Some (JArr ds)"
    then obtain ds where "j = Some (JArr ds)" ..
    then show ?thesis by (simp only: normalizeDomains_arr distinct_sort_first)
  next
    assume "normalizeDomains j = []"
    then show ?thesis by simp
  qed
qed

lemma normalizeKeywords_distinct: "distinct (normalizeKeywords j)"
proof -
  from normalizeKeywords_cases[of j] show ?thesis
  proof
    assume "\<exists>ks. j = Some (JArr ks)"
    then obtain ks where "j = Some (JArr ks)" ..
    then show ?thesis by (simp only: normalizeKeywords_arr distinct_sort_first)
  next
    assume "normalizeKeywords j = []"
    then show ?thesis by simp
  qed
qed

lemma normalizeDomains_source:
  assumes "d \<in> set (normalizeDomains j)"
  shows "\<exists>x. d = stripWww (toLowerCase (trim x))"
proof -
  from normalizeDomains_cases[of j] show ?thesis
  proof
    assume "\<exists>ds. j = Some (JArr ds)"
    then obtain ds where j: "j = Some (JArr ds)" ..
    from assms have "d \<in> set (map stripWww (map (\<lambda>d. toLowerCase (trim d)) (nonBlankStrings ds)))"
      unfolding j normalizeDomains_arr by (rule set_sort_first)
    then show ?thesis by auto
  next
    assume "normalizeDomains j = []"
    with assms show ?thesis by simp
  qed
qed

lemma normalizeKeywords_source:
  assumes "k \<in> set (normalizeKeywords j)"
  shows "\<exists>x. k = toLowerCase (trim x)"
proof -
  from normalizeKeywords_cases[of j] show ?thesis
  proof
    assume "\<exists>ks. j = Some (JArr ks)"
    then obtain ks where j: "j = Some (JArr ks)" ..
    from assms have "k \<in> set (map (\<lambda>k. toLowerCase (trim k)) (nonBlankStrings ks))"
      unfolding j normalizeKeywords_arr by (rule set_sort_first)
    then show ?thesis by auto
  next
    assume "normalizeKeywords j = []"
    with assms show ?thesis by simp
  qed
qed

subsection \<open>Entries\<close>

lemma toIndexEntry_id:
  assumes "toIndexEntry meta rel = Inr e"
  shows "getProp (Some meta) ''id'' = Some (JStr (entry_id e))"
proof (cases "getProp (Some meta) ''id''")
  case None
  with assms show ?thesis by (simp add: toIndexEntry_def)
next
  case (Some v)
  show ?thesis
  proof (cases "getProp (getProp (Some meta) ''display'') ''name''")
    case None
    with assms Some show ?thesis by (cases v) (simp_all add: toIndexEntry_def split: if_splits)
  next
    case n: (Some w)
    with assms Some show ?thesis
      by (cases v; cases w) (auto simp add: toIndexEntry_def split: if_splits)
  qed
qed

lemma toIndexEntry_fields:
  assumes "toIndexEntry meta rel = Inr e"
  shows "category e = inferCategory rel"
    and "domains e = normalizeDomains (getProp (getProp (Some meta) ''match'') ''domains'')"
    and "entry_keywords e = normalizeKeywords (getProp (getProp (Some meta) ''match'') ''keywords'')"
proof -
  have "category e = inferCategory rel \<and>
     domains e = normalizeDomains (getProp (getProp (Some meta) ''match'') ''domains'') \<and>
     entry_keywords e = normalizeKeywords (getProp (getProp (Some meta) ''match'') ''keywords'')"
  proof (cases "getProp (Some meta) ''id''")
    case None
    with assms show ?thesis by (simp add: toIndexEntry_def)
  next
    case (Some v)
    show ?thesis
    proof (cases "getProp (getProp (Some meta) ''display'') ''name''")
      case None
      with assms Some show ?thesis by (cases v) (simp_all add: toIndexEntry_def split: if_splits)
    next
      case n: (Some w)
      with assms Some show ?thesis
        by (cases v; cases w) (auto simp add: toIndexEntry_def split: if_splits)
    qed
  qed
  then show "category e = inferCategory rel"
    and "domains e = normalizeDomains (getProp (getProp (Some meta) ''match'') ''domains'')"
    and "entry_keywords e = normalizeKeywords (getProp (getProp (Some meta) ''match'') ''keywords'')"
    by simp_all
qed

lemma bundleEntry_fields:
  assumes "bundleEntry meta rel = Inr e"
  shows "getProp (Some meta) ''id'' = Some (JStr (entry_id e))"
    and "category e = ''bundles''"
    and "domains e = []"
    and "entry_keywords e = normalizeKeywords (getProp (Some meta) ''keywords'')"
proof -
  have "getProp (Some meta) ''id'' = Some (JStr (entry_id e)) \<and> category e = ''bundles'' \<and>
    domains e = [] \<and> entry_keywords e = normalizeKeywords (getProp (Some meta) ''keywords'')"
  proof (cases "getProp (Some meta) ''id''")
    case None
    with assms show ?thesis by (simp add: bundleEntry_def)
  next
    case (Some v)
    show ?thesis
    proof (cases "getProp (getProp (Some meta) ''display'') ''name''")
      case None
      with assms Some show ?thesis by (cases v) (simp_all add: bundleEntry_def)
    next
      case n: (Some w)
      with assms Some show ?thesis
        by (cases v; cases w) (auto simp add: bundleEntry_def)
    qed
  qed
  then show "getProp (Some meta) ''id'' = Some (JStr (entry_id e))"
    and "category e = ''bundles''"
    and "domains e = []"
    and "entry_keywords e = normalizeKeywords (getProp (Some meta) ''keywords'')"
    by simp_all
qed

lemma inferCategory_in: "inferCategory p \<in> categories"
  by (simp add: inferCategory_def categories_def Let_def)

lemma entryOf_cases:
  assumes "entryOf h f = Inr e"
  obtains meta where "parse h (snd f) = Some meta" "endsWith (fst f) ''.bundle.json''"
      "bundleEntry meta (relative (cwd h) (fst f)) = Inr e"
  | meta where "parse h (snd f) = Some meta" "\<not> endsWith (fst f) ''.bundle.json''"
      "toIndexEntry meta (relative (cwd h) (fst f)) = Inr e"
  using assms by (auto simp add: entryOf_def Let_def split: option.splits if_splits)

lemma entryOf_docId: "entryOf h f = Inr e \<Longrightarrow> docId h f = Some (entry_id e)"
  by (erule entryOf_cases) (simp_all add: docId_def bundleEntry_fields(1) toIndexEntry_id)

lemma entryOf_category:
  "entryOf h f = Inr e \<Longrightarrow>
   category e = (if endsWith (fst f) ''.bundle.json'' then ''bundles''
                 else inferCategory (relative (cwd h) (fst f)))"
  by (erule entryOf_cases) (simp_all add: bundleEntry_fields(2) toIndexEntry_fields(1))

lemma entryOf_category_in: "entryOf h f = Inr e \<Longrightarrow> category e \<in> categories"
  using inferCategory_in by (simp add: entryOf_category categories_def)

lemma entryOf_lists:
  assumes "entryOf h f = Inr e"
  shows "\<exists>j. domains e = normalizeDomains j" and "\<exists>j. entry_keywords e = normalizeKeywords j"
proof -
  have nd: "\<exists>j. [] = normalizeDomains j"
    by (rule exI[of _ None]) (simp add: normalizeDomains_def)
  from assms nd show "\<exists>j. domains e = normalizeDomains j"
    by (elim entryOf_cases) (auto simp add: bundleEntry_fields(3) toIndexEntry_fields(2))
  from assms show "\<exists>j. entry_keywords e = normalizeKeywords j"
    by (elim entryOf_cases) (auto simp add: bundleEntry_fields(4) toIndexEntry_fields(3))
qed

subsection \<open>Sorting\<close>

text \<open>Insertion with a consistent comparator keeps a list sorted; \<open>compareEntries\<close> is
  consistent when \<open>localeCompare\<close> is.\<close>

lemma set_insertBy: "set (insertBy cmp x ys) = insert x (set ys)"
  by (induction ys) auto

lemma set_sortBy: "set (sortBy cmp xs) = set xs"
  by (induction xs) (simp_all add: sortBy_def set_insertBy)

lemma sorted_insertBy:
  assumes tot: "\<And>a b. cmp a b > 0 \<Longrightarrow> cmp b a \<le> 0"
    and tr: "\<And>a b c. cmp a b \<le> 0 \<Longrightarrow> cmp b c \<le> 0 \<Longrightarrow> cmp a c \<le> 0"
  shows "sorted_wrt (\<lambda>a b. cmp a b \<le> 0) ys \<Longrightarrow> sorted_wrt (\<lambda>a b. cmp a b \<le> 0) (insertBy cmp x ys)"
proof (induction ys)
  case Nil
  then show ?case by simp
next
  case (Cons y ys)
  show ?case
  proof (cases "cmp x y \<le> 0")
    case True
    then have "\<forall>z\<in>set ys. cmp x z \<le> 0" using Cons.prems tr by auto
    with True Cons.prems show ?thesis by simp
  next
    case False
    then have "cmp y x \<le> 0" using tot[of x y] by simp
    with False Cons show ?thesis by (simp add: set_insertBy)
  qed
qed

lemma sorted_sortBy:
  assumes tot: "\<And>a b. cmp a b > 0 \<Longrightarrow> cmp b a \<le> 0"
    and tr: "\<And>a b c. cmp a b \<le> 0 \<Longrightarrow> cmp b c \<le> 0 \<Longrightarrow> cmp a c \<le> 0"
  shows "sorted_wrt (\<lambda>a b. cmp a b \<le> 0) (sortBy cmp xs)"
proof (induction xs)
  case Nil
  then show ?case by (simp add: sortBy_def)
next
  case (Cons x xs)
  have "sortBy cmp (x # xs) = insertBy cmp x (sortBy cmp xs)" by (simp add: sortBy_def)
  with Cons show ?case using sorted_insertBy[of cmp, OF tot tr] by simp
qed

lemma consistent_sym0:
  assumes "consistentComparator cmp"
  shows "(cmp a b = 0) = (cmp b a = 0)"
proof -
  from assms have 1: "\<And>a b. (cmp a b < 0) = (cmp b a > 0)"
    by (simp add: consistentComparator_def)
  show ?thesis using 1[of a b] 1[of b a] by linarith
qed

lemma consistent_lt_le:
  assumes c: "consistentComparator cmp" and "cmp a b < 0" "cmp b d \<le> 0"
  shows "cmp a d < 0"
proof (rule ccontr)
  assume "\<not> cmp a d < 0"
  from c have 1: "\<And>a b. (cmp a b < 0) = (cmp b a > 0)"
    and 2: "\<And>a b c. cmp a b \<le> 0 \<Longrightarrow> cmp b c \<le> 0 \<Longrightarrow> cmp a c \<le> 0"
    by (simp_all add: consistentComparator_def)
  from \<open>\<not> cmp a d < 0\<close> have "cmp d a \<le> 0" using 1[of a d] by linarith
  with \<open>cmp b d \<le> 0\<close> have "cmp b a \<le> 0" by (rule 2)
  with \<open>cmp a b < 0\<close> show False using 1[of a b] by linarith
qed

lemma consistent_le_lt:
  assumes c: "consistentComparator cmp" and "cmp a b \<le> 0" "cmp b d < 0"
  shows "cmp a d < 0"
proof (rule ccontr)
  assume "\<not> cmp a d < 0"
  from c have 1: "\<And>a b. (cmp a b < 0) = (cmp b a > 0)"
    and 2: "\<And>a b c. cmp a b \<le> 0 \<Longrightarrow> cmp b c \<le> 0 \<Longrightarrow> cmp a c \<le> 0"
    by (simp_all add: consistentComparator_def)
  from \<open>\<not> cmp a d < 0\<close> have "cmp d a \<le> 0" using 1[of a d] by linarith
  from this \<open>cmp a b \<le> 0\<close> have "cmp d b \<le> 0" by (rule 2)
  with \<open>cmp b d < 0\<close> show False using 1[of b d] by linarith
qed

lemma compareEntries_le:
  "(compareEntries h a b \<le> 0) =
   (localeCompare h (category a) (category b) < 0 \<or>
    (localeCompare h (category a) (category b) = 0 \<and>
     localeCompare h (entry_id a) (entry_id b) \<le> 0))"
  by (auto simp add: compareEntries_def Let_def)

lemma compareEntries_total:
  assumes c: "consistentComparator (localeCompare h)" and "compareEntries h a b > 0"
  shows "compareEntries h b a \<le> 0"
proof -
  from c have 1: "\<And>a b. (localeCompare h a b < 0) = (localeCompare h b a > 0)"
    by (simp add: consistentComparator_def)
  show ?thesis
  proof (cases "localeCompare h (category a) (category b) = 0")
    case True
    then have z: "localeCompare h (category b) (category a) = 0"
      using consistent_sym0[OF c] by simp
    from True assms(2) have "localeCompare h (entry_id a) (entry_id b) > 0"
      by (simp add: compareEntries_def)
    then have "localeCompare h (entry_id b) (entry_id a) < 0" using 1 by simp
    with z show ?thesis by (simp add: compareEntries_def)
  next
    case False
    with assms(2) have "localeCompare h (category a) (category b) > 0"
      by (simp add: compareEntries_def)
    then have "localeCompare h (category b) (category a) < 0" using 1 by simp
    then show ?thesis by (simp add: compareEntries_def)
  qed
qed

lemma compareEntries_trans:
  assumes c: "consistentComparator (localeCompare h)"
    and ab: "compareEntries h a b \<le> 0" and bd: "compareEntries h b d \<le> 0"
  shows "compareEntries h a d \<le> 0"
proof -
  let ?lc = "localeCompare h"
  from c have 2: "\<And>a b c. ?lc a b \<le> 0 \<Longrightarrow> ?lc b c \<le> 0 \<Longrightarrow> ?lc a c \<le> 0"
    by (simp add: consistentComparator_def)
  from ab have ab': "?lc (category a) (category b) < 0 \<or>
      (?lc (category a) (category b) = 0 \<and> ?lc (entry_id a) (entry_id b) \<le> 0)"
    by (simp only: compareEntries_le)
  from bd have bd': "?lc (category b) (category d) < 0 \<or>
      (?lc (category b) (category d) = 0 \<and> ?lc (entry_id b) (entry_id d) \<le> 0)"
    by (simp only: compareEntries_le)
  have "?lc (category a) (category d) < 0 \<or>
      (?lc (category a) (category d) = 0 \<and> ?lc (entry_id a) (entry_id d) \<le> 0)"
  proof (cases "?lc (category a) (category b) < 0")
    case True
    moreover from bd' have "?lc (category b) (category d) \<le> 0" by auto
    ultimately show ?thesis using consistent_lt_le[OF c] by blast
  next
    case False
    with ab' have e1: "?lc (category a) (category b) = 0" and i1: "?lc (entry_id a) (entry_id b) \<le> 0"
      by auto
    show ?thesis
    proof (cases "?lc (category b) (category d) < 0")
      case True
      moreover from e1 have "?lc (category a) (category b) \<le> 0" by simp
      ultimately show ?thesis using consistent_le_lt[OF c] by blast
    next
      case False
      with bd' have e2: "?lc (category b) (category d) = 0" and i2: "?lc (entry_id b) (entry_id d) \<le> 0"
        by auto
      from e1 e2 have le: "?lc (category a) (category d) \<le> 0" using 2[of "category a" "category b" "category d"] by simp
      from e1 e2 have "?lc (category b) (category a) = 0" "?lc (category d) (category b) = 0"
        using consistent_sym0[OF c] by simp_all
      then have "?lc (category d) (category a) \<le> 0" using 2[of "category d" "category b" "category a"] by simp
      then have "\<not> ?lc (category a) (category d) < 0"
        using c by (simp add: consistentComparator_def)
      with le have "?lc (category a) (category d) = 0" by simp
      moreover from i1 i2 have "?lc (entry_id a) (entry_id d) \<le> 0" by (rule 2)
      ultimately show ?thesis by simp
    qed
  qed
  then show ?thesis by (simp only: compareEntries_le)
qed

lemma sortEntries_sorted:
  assumes c: "consistentComparator (localeCompare h)"
  shows "sorted_wrt (\<lambda>a b. compareEntries h a b \<le> 0) (sortEntries h es)"
  unfolding sortEntries_def
  using compareEntries_total[OF c] compareEntries_trans[OF c]
  by (rule sorted_sortBy)

subsection \<open>The loop over the files\<close>

lemma collect_all:
  "map (entryOf h) fs = map Inr es \<Longrightarrow>
   collect h fs seen acc =
     (case firstDuplicate (map entry_id es) seen of
        Some x \<Rightarrow> Inl (Error (''Duplicate id: '' @ x))
      | None \<Rightarrow> Inr (acc @ es))"
proof (induction fs arbitrary: es seen acc)
  case Nil
  then show ?case by simp
next
  case (Cons f fs)
  then obtain en es' where es: "es = en # es'" and f: "entryOf h f = Inr en"
    and r: "map (entryOf h) fs = map Inr es'" by (cases es) auto
  show ?case unfolding es using Cons.IH[OF r] by (simp add: f split: option.splits)
qed

lemma collect_Inr:
  "collect h fs seen acc = Inr es \<Longrightarrow>
   \<exists>new. es = acc @ new \<and> map (entryOf h) fs = map Inr new"
proof (induction fs arbitrary: seen acc)
  case Nil
  then show ?case by simp
next
  case (Cons f fs)
  from Cons.prems obtain en where f: "entryOf h f = Inr en"
    and c: "collect h fs (insert (entry_id en) seen) (acc @ [en]) = Inr es"
    by (auto split: sum.splits if_splits)
  from Cons.IH[OF c] obtain new where "es = (acc @ [en]) @ new" "map (entryOf h) fs = map Inr new"
    by blast
  then have "es = acc @ (en # new) \<and> map (entryOf h) (f # fs) = map Inr (en # new)"
    using f by simp
  then show ?case by blast
qed

lemma collect_seen:
  "j < length fs \<Longrightarrow> docId h (fs ! j) = Some x \<Longrightarrow> x \<in> seen \<Longrightarrow>
   \<exists>e. collect h fs seen acc = Inl e"
proof (induction fs arbitrary: j seen acc)
  case Nil
  then show ?case by simp
next
  case (Cons f fs)
  show ?case
  proof (cases "entryOf h f")
    case (Inl e)
    then show ?thesis by simp
  next
    case (Inr en)
    show ?thesis
    proof (cases "entry_id en \<in> seen")
      case True
      with Inr show ?thesis by simp
    next
      case False
      show ?thesis
      proof (cases j)
        case 0
        with Cons.prems have "docId h f = Some x" by simp
        with entryOf_docId[OF Inr] have "entry_id en = x" by simp
        with False Cons.prems show ?thesis by simp
      next
        case (Suc k)
        with Cons.prems have "k < length fs" "docId h (fs ! k) = Some x"
          "x \<in> insert (entry_id en) seen" by simp_all
        from Cons.IH[OF this] show ?thesis using Inr False by simp
      qed
    qed
  qed
qed

lemma collect_duplicate:
  "i < j \<Longrightarrow> j < length fs \<Longrightarrow> docId h (fs ! i) = Some x \<Longrightarrow> docId h (fs ! j) = Some x \<Longrightarrow>
   \<exists>e. collect h fs seen acc = Inl e"
proof (induction fs arbitrary: i j seen acc)
  case Nil
  then show ?case by simp
next
  case (Cons f fs)
  from Cons.prems obtain k where j: "j = Suc k" by (cases j) auto
  show ?case
  proof (cases "entryOf h f")
    case (Inl e)
    then show ?thesis by simp
  next
    case (Inr en)
    show ?thesis
    proof (cases "entry_id en \<in> seen")
      case True
      with Inr show ?thesis by simp
    next
      case False
      show ?thesis
      proof (cases i)
        case 0
        with Cons.prems have "docId h f = Some x" by simp
        with entryOf_docId[OF Inr] have "entry_id en = x" by simp
        moreover from Cons.prems j have "k < length fs" "docId h (fs ! k) = Some x" by simp_all
        ultimately have "\<exists>e. collect h fs (insert (entry_id en) seen) (acc @ [en]) = Inl e"
          using collect_seen[of k fs h x] by simp
        then show ?thesis using Inr False by simp
      next
        case (Suc i')
        with Cons.prems j have "i' < k" "k < length fs" "docId h (fs ! i') = Some x"
          "docId h (fs ! k) = Some x" by simp_all
        from Cons.IH[OF this] show ?thesis using Inr False by simp
      qed
    qed
  qed
qed

lemma build_Inr:
  assumes "build h root = Inr ix"
  shows "\<exists>files es. discover h root = Inr files \<and> map (entryOf h) files = map Inr es \<and>
           ix = \<lparr> schemaVersion = 1, generatedAt = now h, entries = sortEntries h es \<rparr>"
proof -
  from assms obtain files es where d: "discover h root = Inr files"
    and c: "collect h files {} [] = Inr es"
    and ix: "ix = \<lparr> schemaVersion = 1, generatedAt = now h, entries = sortEntries h es \<rparr>"
    by (auto simp add: build_def split: sum.splits)
  from collect_Inr[OF c] have "map (entryOf h) files = map Inr es" by simp
  with d ix show ?thesis by blast
qed

lemma build_entry_source:
  assumes "build h root = Inr ix" and "e \<in> set (entries ix)"
  shows "\<exists>f. entryOf h f = Inr e"
proof -
  from build_Inr[OF assms(1)] obtain files es where m: "map (entryOf h) files = map Inr es"
    and ix: "ix = \<lparr> schemaVersion = 1, generatedAt = now h, entries = sortEntries h es \<rparr>"
    by blast
  from assms(2) ix have "e \<in> set es" by (simp add: sortEntries_def set_sortBy)
  then have "Inr e \<in> entryOf h ` set files" using m by (metis image_eqI list.set_map)
  then obtain f where "Inr e = entryOf h f" by (rule imageE)
  then have "entryOf h f = Inr e" by (rule sym)
  then show ?thesis by (rule exI)
qed

subsection \<open>Runs of \<open>main\<close>\<close>

lemma resolve_single: "resolve es [c] = map_of es c"
  by (simp split: option.splits node.splits)

lemma exists_single: "exists es [c] = (map_of es c \<noteq> None)"
  by (simp only: exists_def resolve_single)

lemma writeFileSync_single:
  "writeFileSync [c] content es = Inr es' \<Longrightarrow> es' = AList.update c (File content) es"
  by (auto split: option.splits node.splits)

lemma writeFileSync_single_ok:
  "(\<forall>sub. map_of es c \<noteq> Some (Dir sub)) \<Longrightarrow>
   writeFileSync [c] content es = Inr (AList.update c (File content) es)"
  by (auto split: option.splits node.splits)

lemma readFile_update: "readFile (AList.update c (File content) es) [c] = Some content"
  by (simp add: readFile_def resolve_single update_conv')

lemma findUnder_update:
  "d \<noteq> c \<Longrightarrow> findUnder (h\<lparr>now := t\<rparr>) (AList.update c v root) d s = findUnder h root d s"
  by (simp add: findUnder_def exists_single update_conv' split: option.splits node.splits)

lemma discover_update:
  "c \<noteq> ''presets'' \<Longrightarrow> c \<noteq> ''bundles'' \<Longrightarrow>
   discover (h\<lparr>now := t\<rparr>) (AList.update c v root) = discover h root"
  by (simp add: discover_def findUnder_update exists_single update_conv' split: sum.splits)

lemma entryOf_now: "entryOf (h\<lparr>now := t\<rparr>) f = entryOf h f"
  by (simp add: entryOf_def)

lemma collect_now: "collect (h\<lparr>now := t\<rparr>) fs seen acc = collect h fs seen acc"
  by (induction fs arbitrary: seen acc) (simp_all add: entryOf_now split: sum.splits)

lemma sortEntries_now: "sortEntries (h\<lparr>now := t\<rparr>) es = sortEntries h es"
proof -
  have "compareEntries (h\<lparr>now := t\<rparr>) = compareEntries h"
    by (simp add: compareEntries_def fun_eq_iff Let_def)
  then show ?thesis by (simp add: sortEntries_def)
qed

lemma build_rerun:
  assumes "build h root = Inr ix" and "c \<noteq> ''presets''" "c \<noteq> ''bundles''"
  shows "build (h\<lparr>now := t\<rparr>) (AList.update c v root) = Inr (ix\<lparr>generatedAt := t\<rparr>)"
  using assms
  by (auto simp add: build_def discover_update collect_now sortEntries_now split: sum.splits)

subsection \<open>The claims about the index builder\<close>

text \<open>Claim C8: a second run of the index builder over the file system the first run left
  (the same documents, a later clock) succeeds and builds the same index document but for
  \<open>generatedAt\<close>: the same \<open>schemaVersion\<close> and the same entries in the same order.\<close>

theorem rebuild_same_index:
  assumes "main h root = (None, root')"
  shows "\<exists>ix root''. build h root = Inr ix
           \<and> readFile root' [''index.json''] = Some (stringify h (index_json ix) @ [CHR 0x0A])
           \<and> build (h\<lparr>now := t\<rparr>) root' = Inr (ix\<lparr>generatedAt := t\<rparr>)
           \<and> main (h\<lparr>now := t\<rparr>) root' = (None, root'')
           \<and> readFile root'' [''index.json'']
               = Some (stringify h (index_json (ix\<lparr>generatedAt := t\<rparr>)) @ [CHR 0x0A])"
proof -
  from assms obtain ix where b: "build h root = Inr ix"
    and w: "writeFileSync [''index.json''] (stringify h (index_json ix) @ [CHR 0x0A]) root = Inr root'"
    by (auto simp add: main_def split: sum.splits)
  let ?c = "stringify h (index_json ix) @ [CHR 0x0A]"
  let ?c' = "stringify h (index_json (ix\<lparr>generatedAt := t\<rparr>)) @ [CHR 0x0A]"
  from w have r': "root' = AList.update ''index.json'' (File ?c) root"
    by (rule writeFileSync_single)
  have rd: "readFile root' [''index.json''] = Some ?c" unfolding r' by (rule readFile_update)
  have b': "build (h\<lparr>now := t\<rparr>) root' = Inr (ix\<lparr>generatedAt := t\<rparr>)"
    unfolding r' using b by (rule build_rerun) simp_all
  have "\<forall>sub. map_of root' ''index.json'' \<noteq> Some (Dir sub)"
    unfolding r' by (simp add: update_conv')
  then have w': "writeFileSync [''index.json''] ?c' root' = Inr (AList.update ''index.json'' (File ?c') root')"
    by (rule writeFileSync_single_ok)
  have m': "main (h\<lparr>now := t\<rparr>) root' = (None, AList.update ''index.json'' (File ?c') root')"
    by (simp add: main_def b' w' del: writeFileSync.simps)
  have "readFile (AList.update ''index.json'' (File ?c') root') [''index.json''] = Some ?c'"
    by (rule readFile_update)
  with b rd b' m' show ?thesis by blast
qed

text \<open>Claim C5: when two of the documents found have the same id, the run ends with an error
  and the file system is as it was, so no index file is written and a previous one keeps its
  content; when every document found is a valid entry, the error is \<open>Duplicate id\<close> with the
  first id that occurs a second time.\<close>

theorem duplicate_id_aborts:
  assumes "discover h root = Inr files"
    and "i < j" and "j < length files"
    and "docId h (files ! i) = Some x" and "docId h (files ! j) = Some x"
  shows "(\<exists>e. main h root = (Some e, root)) \<and>
         (\<forall>es. map (entryOf h) files = map Inr es \<longrightarrow>
            (\<exists>y. firstDuplicate (map entry_id es) {} = Some y \<and>
                 main h root = (Some (Error (''Duplicate id: '' @ y)), root)))"
proof -
  from collect_duplicate[OF assms(2-5)] obtain e where c: "collect h files {} [] = Inl e"
    by blast
  then have 1: "main h root = (Some e, root)" by (simp add: main_def build_def assms(1))
  have 2: "\<exists>y. firstDuplicate (map entry_id es) {} = Some y \<and>
                 main h root = (Some (Error (''Duplicate id: '' @ y)), root)"
    if m: "map (entryOf h) files = map Inr es" for es
  proof (cases "firstDuplicate (map entry_id es) {}")
    case None
    with collect_all[OF m, of "{}" "[]"] c show ?thesis by simp
  next
    case (Some y)
    with collect_all[OF m, of "{}" "[]"] c have "e = Error (''Duplicate id: '' @ y)" by simp
    with 1 Some show ?thesis by simp
  qed
  from 1 2 show ?thesis by blast
qed

text \<open>Claim C6, amended: in a produced index, an entry \<open>A\<close> that precedes an entry \<open>B\<close>
  has a smaller category, or the same category and an id that is smaller or equal, where
  smaller and equal are what \<open>localeCompare\<close> answers (a consistent comparator that tells
  the five category names apart), not the order of the code units.\<close>

theorem entries_sorted:
  assumes c: "consistentComparator (localeCompare h)"
    and s: "separates (localeCompare h) categories"
    and b: "build h root = Inr ix"
    and ij: "i < j" "j < length (entries ix)"
  shows "localeCompare h (category (entries ix ! i)) (category (entries ix ! j)) < 0
       \<or> (category (entries ix ! i) = category (entries ix ! j)
          \<and> localeCompare h (entry_id (entries ix ! i)) (entry_id (entries ix ! j)) \<le> 0)"
proof -
  let ?A = "entries ix ! i" and ?B = "entries ix ! j"
  from build_Inr[OF b] obtain es where e: "entries ix = sortEntries h es" by auto
  have "sorted_wrt (\<lambda>a b. compareEntries h a b \<le> 0) (entries ix)"
    unfolding e using c by (rule sortEntries_sorted)
  then have "compareEntries h ?A ?B \<le> 0" using ij by (rule sorted_wrt_nth_less)
  then have le: "localeCompare h (category ?A) (category ?B) < 0 \<or>
      (localeCompare h (category ?A) (category ?B) = 0 \<and>
       localeCompare h (entry_id ?A) (entry_id ?B) \<le> 0)"
    by (simp only: compareEntries_le)
  from ij have "?A \<in> set (entries ix)" "?B \<in> set (entries ix)" by simp_all
  then have "category ?A \<in> categories" "category ?B \<in> categories"
    using build_entry_source[OF b] entryOf_category_in by blast+
  then have "localeCompare h (category ?A) (category ?B) = 0 \<Longrightarrow> category ?A = category ?B"
    using s by (simp add: separates_def)
  with le show ?thesis by blast
qed

text \<open>Claim C4, amended: in every entry of a produced index the domains and the keywords have
  no duplicates, every keyword is its own trimmed, lowercased form, every domain is its own
  lowercased form, and a domain that begins neither with \<open>www.\<close> nor with white space is its
  own trimmed, lowercased, \<open>www.\<close>-stripped form.\<close>

theorem entry_lists_normalized:
  assumes b: "build h root = Inr ix" and e: "e \<in> set (entries ix)"
  shows "distinct (domains e) \<and> distinct (entry_keywords e)
       \<and> (\<forall>k\<in>set (entry_keywords e). toLowerCase (trim k) = k)
       \<and> (\<forall>d\<in>set (domains e). toLowerCase d = d
            \<and> (\<not> startsWith d ''www.'' \<and> (d = [] \<or> \<not> isSpace (hd d))
                 \<longrightarrow> stripWww (toLowerCase (trim d)) = d))"
proof -
  from build_entry_source[OF b e] obtain f where f: "entryOf h f = Inr e" ..
  from entryOf_lists[OF f] obtain jd jk where jd: "domains e = normalizeDomains jd"
    and jk: "entry_keywords e = normalizeKeywords jk" by blast
  have 1: "distinct (domains e)" unfolding jd by (rule normalizeDomains_distinct)
  have 2: "distinct (entry_keywords e)" unfolding jk by (rule normalizeKeywords_distinct)
  have 3: "toLowerCase (trim k) = k" if "k \<in> set (entry_keywords e)" for k
  proof -
    from that obtain x where "k = toLowerCase (trim x)"
      unfolding jk using normalizeKeywords_source by blast
    then show ?thesis by (simp only: keyword_value)
  qed
  have 4: "toLowerCase d = d \<and> (\<not> startsWith d ''www.'' \<and> (d = [] \<or> \<not> isSpace (hd d))
                 \<longrightarrow> stripWww (toLowerCase (trim d)) = d)" if "d \<in> set (domains e)" for d
  proof -
    from that obtain x where x: "d = stripWww (toLowerCase (trim x))"
      unfolding jd using normalizeDomains_source by blast
    have "toLowerCase d = d" unfolding x by (rule domain_value_lower)
    moreover have "stripWww (toLowerCase (trim d)) = d"
      if "\<not> startsWith d ''www.''" "d = [] \<or> \<not> isSpace (hd d)"
      using x that by (rule domain_value_fixed)
    ultimately show ?thesis by blast
  qed
  from 1 2 3 4 show ?thesis by blast
qed

text \<open>Claim C3, amended: the category of a file's entry is \<open>bundles\<close> for a bundle file;
  for a preset meta file it is decided by the relative path alone, with backslashes read as
  slashes and the first match taken: \<open>presets/votesites/\<close> gives \<open>votesites\<close>,
  \<open>presets/rewards/\<close> gives \<open>rewards\<close>, \<open>presets/milestones/\<close> gives \<open>milestones\<close>,
  \<open>bundles/\<close> gives \<open>bundles\<close>, and any other path gives \<open>other\<close>.\<close>

theorem category_of_entry:
  assumes "entryOf h (absMeta, raw) = Inr e"
  shows "category e =
     (if endsWith absMeta ''.bundle.json'' then ''bundles''
      else (let p = replaceAll (CHR 0x5C) CHR ''/'' (relative (cwd h) absMeta) in
            if includesStr p ''presets/votesites/'' then ''votesites''
            else if includesStr p ''presets/rewards/'' then ''rewards''
            else if includesStr p ''presets/milestones/'' then ''milestones''
            else if includesStr p ''bundles/'' then ''bundles''
            else ''other''))"
  using entryOf_category[OF assms] by (simp add: inferCategory_def)

subsection \<open>The claims at the example repository\<close>

lemma build_example: "build exampleHost exampleTree = Inr exampleIndex"
  by code_simp

lemma main_example:
  "main exampleHost exampleTree = (None, exampleTree @ [(''index.json'', File (''{}'' @ [CHR 0x0A]))])"
  by code_simp

lemma consistent_compareStrings: "consistentComparator compareStrings"
  by (auto simp add: consistentComparator_def compareStrings_def split: if_splits)

lemma separates_compareStrings: "separates compareStrings S"
  by (auto simp add: separates_def compareStrings_def split: if_splits)

lemma localeCompare_example: "localeCompare exampleHost = compareStrings"
  by (simp add: exampleHost_def)

text \<open>Claim C3 as stated fails: the preset meta file \<open>presets/bundles/pack.meta.json\<close>
  contains none of the three preset directories and its category is \<open>bundles\<close>, not
  \<open>other\<close>.\<close>

theorem category_of_entry_counterexample:
  "entryOf exampleHost (''/repo/presets/bundles/pack.meta.json'', ''pack-doc'') = Inr packEntry
   \<and> relative (cwd exampleHost) ''/repo/presets/bundles/pack.meta.json''
       = ''presets/bundles/pack.meta.json''
   \<and> \<not> endsWith ''/repo/presets/bundles/pack.meta.json'' ''.bundle.json''
   \<and> \<not> includesStr ''presets/bundles/pack.meta.json'' ''presets/votesites/''
   \<and> \<not> includesStr ''presets/bundles/pack.meta.json'' ''presets/rewards/''
   \<and> \<not> includesStr ''presets/bundles/pack.meta.json'' ''presets/milestones/''
   \<and> category packEntry = ''bundles''
   \<and> category packEntry \<noteq> ''other''"
  by code_simp

text \<open>Claim C3, amended, at a file under \<open>presets/votesites/\<close>.\<close>

theorem category_of_entry_witness:
  "entryOf exampleHost (''/repo/presets/votesites/example_com.meta.json'', ''votesite-doc'')
     = Inr votesiteEntry
   \<and> category votesiteEntry = ''votesites''"
proof -
  have e: "entryOf exampleHost (''/repo/presets/votesites/example_com.meta.json'', ''votesite-doc'')
     = Inr votesiteEntry" by code_simp
  have "(if endsWith ''/repo/presets/votesites/example_com.meta.json'' ''.bundle.json'' then ''bundles''
      else (let p = replaceAll (CHR 0x5C) CHR ''/''
                     (relative (cwd exampleHost) ''/repo/presets/votesites/example_com.meta.json'') in
            if includesStr p ''presets/votesites/'' then ''votesites''
            else if includesStr p ''presets/rewards/'' then ''rewards''
            else if includesStr p ''presets/milestones/'' then ''milestones''
            else if includesStr p ''bundles/'' then ''bundles''
            else ''other'')) = ''votesites''" by code_simp
  with category_of_entry[OF e] e show ?thesis by simp
qed

text \<open>Claim C4 as stated fails: only one leading \<open>www.\<close> is stripped, so the domain
  \<open>www.www.example.org\<close> of a document is indexed as \<open>www.example.org\<close>, which is not its own
  \<open>www.\<close>-stripped form.\<close>

theorem entry_lists_normalized_counterexample:
  "build exampleHost exampleTree = Inr exampleIndex
   \<and> votesiteEntry \<in> set (entries exampleIndex)
   \<and> ''www.example.org'' \<in> set (domains votesiteEntry)
   \<and> stripWww (toLowerCase (trim ''www.example.org'')) = ''example.org''
   \<and> stripWww (toLowerCase (trim ''www.example.org'')) \<noteq> ''www.example.org''"
  by code_simp

text \<open>Claim C4, amended, at the example repository.\<close>

theorem entry_lists_normalized_witness:
  "build exampleHost exampleTree = Inr exampleIndex
   \<and> votesiteEntry \<in> set (entries exampleIndex)
   \<and> distinct (domains votesiteEntry) \<and> distinct (entry_keywords votesiteEntry)
   \<and> toLowerCase (trim ''foo'') = ''foo''
   \<and> toLowerCase ''www.example.org'' = ''www.example.org''
   \<and> stripWww (toLowerCase (trim ''example.com'')) = ''example.com''"
proof -
  have m: "votesiteEntry \<in> set (entries exampleIndex)" by (simp add: exampleIndex_def)
  note t = entry_lists_normalized[OF build_example m]
  have k: "''foo'' \<in> set (entry_keywords votesiteEntry)"
    and d1: "''www.example.org'' \<in> set (domains votesiteEntry)"
    and d2: "''example.com'' \<in> set (domains votesiteEntry)"
    by (simp_all add: votesiteEntry_def)
  have p: "\<not> startsWith ''example.com'' ''www.'' \<and> (''example.com'' = [] \<or> \<not> isSpace (hd ''example.com''))"
    by code_simp
  from t k have 1: "toLowerCase (trim ''foo'') = ''foo''" by blast
  from t d1 have 2: "toLowerCase ''www.example.org'' = ''www.example.org''" by blast
  from t d2 p have 3: "stripWww (toLowerCase (trim ''example.com'')) = ''example.com''" by blast
  from t build_example m 1 2 3 show ?thesis by blast
qed

text \<open>Claim C5 at a repository with two documents of the same id and an earlier index
  file.\<close>

theorem duplicate_id_aborts_witness:
  "discover exampleHost duplicateTree
     = Inr [(''/repo/presets/votesites/a.meta.json'', ''votesite-doc''),
            (''/repo/presets/votesites/b.meta.json'', ''copy-doc'')]
   \<and> docId exampleHost (''/repo/presets/votesites/a.meta.json'', ''votesite-doc'')
       = Some ''votesite:example''
   \<and> docId exampleHost (''/repo/presets/votesites/b.meta.json'', ''copy-doc'')
       = Some ''votesite:example''
   \<and> main exampleHost duplicateTree
       = (Some (Error ''Duplicate id: votesite:example''), duplicateTree)
   \<and> readFile duplicateTree [''index.json''] = Some ''old index''"
proof -
  let ?fs = "[(''/repo/presets/votesites/a.meta.json'', ''votesite-doc''),
              (''/repo/presets/votesites/b.meta.json'', ''copy-doc'')]"
  let ?es = "[votesiteEntry\<lparr>metaPath := ''presets/votesites/a.meta.json''\<rparr>,
              votesiteEntry\<lparr>name := ''Copy'', domains := [], entry_keywords := [],
                metaPath := ''presets/votesites/b.meta.json''\<rparr>]"
  have d: "discover exampleHost duplicateTree = Inr ?fs" by code_simp
  have i0: "docId exampleHost (?fs ! 0) = Some ''votesite:example''" by code_simp
  have i1: "docId exampleHost (?fs ! 1) = Some ''votesite:example''" by code_simp
  have r: "readFile duplicateTree [''index.json''] = Some ''old index''" by code_simp
  have m: "map (entryOf exampleHost) ?fs = map Inr ?es" by code_simp
  have fd: "firstDuplicate (map entry_id ?es) {} = Some ''votesite:example''" by code_simp
  have "(0::nat) < 1" "1 < length ?fs" by simp_all
  from duplicate_id_aborts[OF d this i0 i1] m
  obtain y where "firstDuplicate (map entry_id ?es) {} = Some y"
    and "main exampleHost duplicateTree = (Some (Error (''Duplicate id: '' @ y)), duplicateTree)"
    by blast
  with fd have "main exampleHost duplicateTree
       = (Some (Error ''Duplicate id: votesite:example''), duplicateTree)" by simp
  with d i0 i1 r show ?thesis by simp
qed

text \<open>Claim C6, amended, at the example repository.\<close>

theorem entries_sorted_witness:
  "consistentComparator (localeCompare exampleHost)
   \<and> separates (localeCompare exampleHost) categories
   \<and> build exampleHost exampleTree = Inr exampleIndex
   \<and> entries exampleIndex ! 0 = starterEntry
   \<and> entries exampleIndex ! 1 = packEntry
   \<and> entries exampleIndex ! 2 = votesiteEntry
   \<and> category starterEntry = category packEntry
   \<and> localeCompare exampleHost (entry_id starterEntry) (entry_id packEntry) \<le> 0
   \<and> localeCompare exampleHost (category packEntry) (category votesiteEntry) < 0"
proof -
  have c: "consistentComparator (localeCompare exampleHost)"
    by (simp only: localeCompare_example consistent_compareStrings)
  have s: "separates (localeCompare exampleHost) categories"
    by (simp only: localeCompare_example separates_compareStrings)
  have l: "(0::nat) < 1" "1 < length (entries exampleIndex)" "(1::nat) < 2"
    "2 < length (entries exampleIndex)" by (simp_all add: exampleIndex_def)
  have n: "entries exampleIndex ! 0 = starterEntry" "entries exampleIndex ! 1 = packEntry"
    "entries exampleIndex ! 2 = votesiteEntry" by (simp_all add: exampleIndex_def)
  have ne: "\<not> localeCompare exampleHost (category starterEntry) (category packEntry) < 0"
    "category packEntry \<noteq> category votesiteEntry" by code_simp+
  from entries_sorted[OF c s build_example l(1,2)] ne
  have 1: "category starterEntry = category packEntry
     \<and> localeCompare exampleHost (entry_id starterEntry) (entry_id packEntry) \<le> 0"
    unfolding n by blast
  from entries_sorted[OF c s build_example l(3,4)] ne
  have 2: "localeCompare exampleHost (category packEntry) (category votesiteEntry) < 0"
    unfolding n by blast
  from c s build_example n 1 2 show ?thesis by blast
qed

lemma compareFolded_lt:
  "(compareFolded a b < 0) =
   (toLowerCase a < toLowerCase b \<or> (toLowerCase a = toLowerCase b \<and> b < a))"
  by (auto simp add: compareFolded_def)

lemma compareFolded_gt:
  "(compareFolded a b > 0) =
   (toLowerCase b < toLowerCase a \<or> (toLowerCase a = toLowerCase b \<and> a < b))"
  by (auto simp add: compareFolded_def)

lemma compareFolded_le:
  "(compareFolded a b \<le> 0) =
   (toLowerCase a < toLowerCase b \<or> (toLowerCase a = toLowerCase b \<and> b \<le> a))"
  by (auto simp add: compareFolded_def)

lemma consistent_compareFolded: "consistentComparator compareFolded"
  unfolding consistentComparator_def compareFolded_lt compareFolded_gt compareFolded_le
  by auto

lemma separates_compareFolded: "separates compareFolded S"
  by (auto simp add: separates_def compareFolded_def split: if_splits)

text \<open>Claim C6 as stated fails: with a \<open>localeCompare\<close> that looks at the letters before
  their case, the entry \<open>votesite:apple\<close> precedes the entry \<open>votesite:Banana\<close> of the same
  category, and \<open>votesite:apple\<close> is not below \<open>votesite:Banana\<close> in the lexicographic
  order of the code units.\<close>

theorem entries_sorted_counterexample:
  "consistentComparator (localeCompare foldedHost)
   \<and> separates (localeCompare foldedHost) categories
   \<and> map_sum id (\<lambda>ix. map entry_id (entries ix)) (build foldedHost foldedTree)
       = Inr [''votesite:apple'', ''votesite:Banana'']
   \<and> map_sum id (\<lambda>ix. map category (entries ix)) (build foldedHost foldedTree)
       = Inr [''votesites'', ''votesites'']
   \<and> \<not> ''votesites'' < ''votesites''
   \<and> \<not> ''votesite:apple'' \<le> ''votesite:Banana''"
proof -
  have l: "localeCompare foldedHost = compareFolded" by (simp add: foldedHost_def)
  have c: "consistentComparator (localeCompare foldedHost)"
    by (simp only: l consistent_compareFolded)
  have s: "separates (localeCompare foldedHost) categories"
    by (simp only: l separates_compareFolded)
  have r: "map_sum id (\<lambda>ix. map entry_id (entries ix)) (build foldedHost foldedTree)
       = Inr [''votesite:apple'', ''votesite:Banana'']
   \<and> map_sum id (\<lambda>ix. map category (entries ix)) (build foldedHost foldedTree)
       = Inr [''votesites'', ''votesites'']
   \<and> \<not> ''votesites'' < ''votesites''
   \<and> \<not> ''votesite:apple'' \<le> ''votesite:Banana''" by code_simp
  from c s r show ?thesis by blast
qed

text \<open>Claim C8 at the example repository.\<close>

theorem rebuild_same_index_witness:
  "main exampleHost exampleTree
     = (None, exampleTree @ [(''index.json'', File (''{}'' @ [CHR 0x0A]))])
   \<and> build exampleHost exampleTree = Inr exampleIndex
   \<and> build (exampleHost\<lparr>now := ''2025-06-30T12:00:00.000Z''\<rparr>)
        (exampleTree @ [(''index.json'', File (''{}'' @ [CHR 0x0A]))])
       = Inr (exampleIndex\<lparr>generatedAt := ''2025-06-30T12:00:00.000Z''\<rparr>)"
proof -
  from rebuild_same_index[OF main_example, of "''2025-06-30T12:00:00.000Z''"]
  obtain ix where "build exampleHost exampleTree = Inr ix"
    and "build (exampleHost\<lparr>now := ''2025-06-30T12:00:00.000Z''\<rparr>)
        (exampleTree @ [(''index.json'', File (''{}'' @ [CHR 0x0A]))])
       = Inr (ix\<lparr>generatedAt := ''2025-06-30T12:00:00.000Z''\<rparr>)" by blast
  with build_example main_example show ?thesis by simp
qed

section \<open>Properties of the generator\<close>

subsection \<open>The form parser\<close>

text \<open>\<open>matchHeader\<close> is the match of the regular expression: it succeeds exactly on the
  lines that match, and its group is the one of the attempt the greedy quantifiers make
  first (the longest \<open>\s+\<close>, then the longest group).\<close>

lemma dropWhile_all: "list_all P xs \<Longrightarrow> dropWhile P (xs @ ys) = dropWhile P ys"
  by (induction xs) simp_all

lemma takeWhile_all: "list_all P xs \<Longrightarrow> takeWhile P (xs @ ys) = xs @ takeWhile P ys"
  by (induction xs) simp_all

lemma list_all_dropWhile: "list_all P xs \<Longrightarrow> list_all P (dropWhile Q xs)"
  by (induction xs) simp_all

lemma list_all_self_dropWhile: "list_all P xs \<Longrightarrow> dropWhile P xs = []"
  by (induction xs) simp_all

lemma prefix_all_takeWhile:
  "list_all P w \<Longrightarrow> xs = w @ ys \<Longrightarrow> length w \<le> length (takeWhile P xs)"
  by (simp add: takeWhile_all)

lemma matchHeader_tail:
  assumes x: "list_all (\<lambda>c. \<not> isLineTerminator c) x" and s: "list_all isSpace s"
  shows "list_all isSpace (dropWhile (\<lambda>c. \<not> isLineTerminator c) (dropWhile isSpace (x @ s)))"
proof (cases "list_all isSpace x")
  case True
  then have "dropWhile isSpace (x @ s) = dropWhile isSpace s" by (rule dropWhile_all)
  also have "\<dots> = []" using s by (rule list_all_self_dropWhile)
  finally have e: "dropWhile isSpace (x @ s) = []" .
  show ?thesis unfolding e by simp
next
  case False
  then have "dropWhile isSpace (x @ s) = dropWhile isSpace x @ s"
    by (auto simp add: dropWhile_append list_all_iff)
  moreover have "list_all (\<lambda>c. \<not> isLineTerminator c) (dropWhile isSpace x)"
    using x by (rule list_all_dropWhile)
  ultimately have "dropWhile (\<lambda>c. \<not> isLineTerminator c) (dropWhile isSpace (x @ s))
      = dropWhile (\<lambda>c. \<not> isLineTerminator c) s"
    by (simp add: dropWhile_all)
  then show ?thesis using s by (simp add: list_all_dropWhile)
qed

lemma matchHeader_complete:
  assumes "headerMatch ln w x s"
  shows "matchHeader ln
       = Some (takeWhile (\<lambda>c. \<not> isLineTerminator c) (dropWhile isSpace (drop 3 ln)))"
proof -
  from assms have ln: "ln = ''###'' @ w @ x @ s" and w: "w \<noteq> []" "list_all isSpace w"
    and x: "list_all (\<lambda>c. \<not> isLineTerminator c) x" and s: "list_all isSpace s"
    by (simp_all add: headerMatch_def)
  have st: "startsWith ln ''###''" by (simp add: ln startsWith_def)
  have rest: "drop 3 ln = w @ x @ s" by (simp add: ln)
  have r': "dropWhile isSpace (w @ x @ s) = dropWhile isSpace (x @ s)"
    using w(2) by (rule dropWhile_all)
  have r: "dropWhile isSpace (drop 3 ln) = dropWhile isSpace (x @ s)"
    unfolding rest by (rule r')
  have "length (dropWhile isSpace (x @ s)) \<le> length (x @ s)" by (rule length_dropWhile_le)
  also have "\<dots> < length (w @ x @ s)" using w(1) by simp
  finally have lt: "length (dropWhile isSpace (x @ s)) < length (w @ x @ s)" .
  have ne: "dropWhile isSpace (drop 3 ln) \<noteq> drop 3 ln"
  proof
    assume "dropWhile isSpace (drop 3 ln) = drop 3 ln"
    then have "dropWhile isSpace (x @ s) = w @ x @ s" unfolding rest r' .
    then have "length (dropWhile isSpace (x @ s)) = length (w @ x @ s)" by (rule arg_cong)
    with lt show False by simp
  qed
  have t: "list_all isSpace (dropWhile (\<lambda>c. \<not> isLineTerminator c) (dropWhile isSpace (drop 3 ln)))"
    unfolding r using x s by (rule matchHeader_tail)
  show ?thesis using st ne t by (simp add: matchHeader_def Let_def)
qed

lemma matchHeader_sound:
  assumes "matchHeader ln = Some x"
  shows "headerMatch ln (takeWhile isSpace (drop 3 ln)) x
           (dropWhile (\<lambda>c. \<not> isLineTerminator c) (dropWhile isSpace (drop 3 ln)))"
proof -
  let ?rest = "drop 3 ln" and ?nl = "\<lambda>c. \<not> isLineTerminator c"
  let ?r = "dropWhile isSpace ?rest"
  from assms have st: "startsWith ln ''###''" and ne: "?r \<noteq> ?rest"
    and t: "list_all isSpace (dropWhile ?nl ?r)" and x: "x = takeWhile ?nl ?r"
    by (auto simp add: matchHeader_def Let_def split: if_splits)
  from st have "ln = ''###'' @ ?rest"
    by (auto simp add: startsWith_def prefix_def)
  also have "?rest = takeWhile isSpace ?rest @ ?r" by simp
  also have "?r = x @ dropWhile ?nl ?r" unfolding x by simp
  finally have ln: "ln = ''###'' @ takeWhile isSpace ?rest @ x @ dropWhile ?nl ?r" .
  have w: "takeWhile isSpace ?rest \<noteq> []"
  proof
    assume "takeWhile isSpace ?rest = []"
    then have "?r = ?rest" by (metis append_Nil takeWhile_dropWhile_id)
    with ne show False by simp
  qed
  have "list_all isSpace (takeWhile isSpace ?rest)" "list_all ?nl x"
    unfolding x by (auto simp add: list_all_iff dest: set_takeWhileD)
  with ln w t show ?thesis unfolding headerMatch_def by blast
qed

lemma matchHeader_greedy:
  assumes "matchHeader ln = Some x" and "headerMatch ln w' x' s'"
  shows "length w' \<le> length (takeWhile isSpace (drop 3 ln))
       \<and> (length w' = length (takeWhile isSpace (drop 3 ln)) \<longrightarrow> length x' \<le> length x)"
proof -
  let ?rest = "drop 3 ln" and ?nl = "\<lambda>c. \<not> isLineTerminator c"
  from assms(2) have rest: "?rest = w' @ x' @ s'" and w': "list_all isSpace w'"
    and x': "list_all ?nl x'" by (simp_all add: headerMatch_def)
  from assms(1) have x: "x = takeWhile ?nl (dropWhile isSpace ?rest)"
    by (auto simp add: matchHeader_def Let_def split: if_splits)
  have 1: "length w' \<le> length (takeWhile isSpace ?rest)"
    using w' rest by (rule prefix_all_takeWhile)
  have 2: "length x' \<le> length x" if "length w' = length (takeWhile isSpace ?rest)"
  proof -
    have "takeWhile isSpace ?rest = w' @ takeWhile isSpace (x' @ s')"
      unfolding rest using w' by (rule takeWhile_all)
    with that have "takeWhile isSpace (x' @ s') = []" by simp
    then have "dropWhile isSpace (x' @ s') = x' @ s'"
      by (metis append_Nil takeWhile_dropWhile_id)
    then have "dropWhile isSpace ?rest = x' @ s'"
      unfolding rest using w' by (simp add: dropWhile_all)
    then show ?thesis unfolding x using x' by (simp add: takeWhile_all)
  qed
  from 1 2 show ?thesis by blast
qed


lemma scanLines_sections:
  "scanLines lns out curKey buf =
     foldl putSection
       (case curKey of
          None \<Rightarrow> out
        | Some k \<Rightarrow> setField out k (trim (joinLines (buf @ takeWhile (\<lambda>l. matchHeader l = None) lns))))
       (sections lns)"
proof (induction lns arbitrary: out curKey buf)
  case Nil
  show ?case by (simp add: flush_def split: option.splits)
next
  case (Cons ln lns)
  show ?case
  proof (cases "matchHeader ln")
    case None
    then show ?thesis by (cases curKey) (simp_all add: Cons.IH)
  next
    case (Some m)
    then show ?thesis
      by (cases curKey) (simp_all add: Cons.IH flush_def putSection_def)
  qed
qed

lemma putSection_apply:
  "putSection out s k =
     (if fst s = ''__proto__'' then out k
      else if k = fst s then Some (trim (joinLines (snd s))) else out k)"
  by (simp add: putSection_def setField_def)

lemma foldl_putSection:
  "foldl putSection out secs k =
     (if k = ''__proto__'' then out k
      else (case map_of (rev secs) k of
              Some body \<Rightarrow> Some (trim (joinLines body))
            | None \<Rightarrow> out k))"
proof (induction secs arbitrary: out rule: rev_induct)
  case Nil
  show ?case by simp
next
  case (snoc s secs)
  have "foldl putSection out (secs @ [s]) k = putSection (foldl putSection out secs) s k"
    by simp
  also have "\<dots> = (if fst s = ''__proto__'' then foldl putSection out secs k
      else if k = fst s then Some (trim (joinLines (snd s))) else foldl putSection out secs k)"
    by (rule putSection_apply)
  also have "\<dots> = (if k = ''__proto__'' then out k
      else (case map_of (rev (secs @ [s])) k of
              Some body \<Rightarrow> Some (trim (joinLines body))
            | None \<Rightarrow> out k))"
    unfolding snoc.IH by (cases s) simp
  finally show ?case .
qed

lemma parseIssueForm_sections:
  "parseIssueForm text k =
     (if k = ''__proto__'' then None
      else map_option formValue (map_of (rev (sections (splitLines text))) k))"
proof -
  have "scanLines (splitLines text) Map.empty None [] = foldl putSection Map.empty (sections (splitLines text))"
    by (simp add: scanLines_sections)
  then show ?thesis
    by (simp add: parseIssueForm_def foldl_putSection formValue_def Let_def split: option.splits)
qed

lemma parseIssueForm_no_headers:
  assumes "list_all (\<lambda>l. matchHeader l = None) (splitLines text)"
  shows "parseIssueForm text = Map.empty"
proof -
  have "list_all (\<lambda>l. matchHeader l = None) lns \<Longrightarrow> sections lns = []" for lns
    by (induction lns) simp_all
  with assms have "sections (splitLines text) = []" by blast
  then show ?thesis by (simp add: fun_eq_iff parseIssueForm_sections)
qed

text \<open>Claim C9 fails on the code for one field name: a header \<open>### __proto__\<close> matches as
  a header with the field name \<open>__proto__\<close>, and the parsed form has no such field, while
  any other name is kept with its body.\<close>

theorem proto_header_dropped:
  "matchHeader ''### __proto__'' = Some ''__proto__''
   \<and> parseIssueForm (''### __proto__'' @ lf @ ''x'') ''__proto__'' = None
   \<and> parseIssueForm (''### proto'' @ lf @ ''x'') ''proto'' = Some ''x''"
  by code_simp

subsection \<open>Placeholders of a VoteSite preset\<close>

lemma isBoolStr_trim: "isBoolStr (trim s) = (toLowerCase (trim s) = ''true'' \<or> toLowerCase (trim s) = ''false'')"
  by (simp add: isBoolStr_def trim_idem Let_def)

lemma isIntStr_trim: "isIntStr (trim s) = (trim s \<noteq> [] \<and> list_all isDigit (trim s))"
  by (simp add: isIntStr_def trim_idem)

lemma votesitePlaceholders_defaults:
  "getProp (getProp (Some (votesitePlaceholders a b c d e f g i)) ''voteDelay'') ''default'' = Some (JStr e)"
  "getProp (getProp (Some (votesitePlaceholders a b c d e f g i)) ''waitUntilVoteDelay'') ''default''
     = Some (JStr (if isBoolStr f then toLowerCase f else []))"
  "getProp (getProp (Some (votesitePlaceholders a b c d e f g i)) ''voteDelayDaily'') ''default''
     = Some (JStr (if isBoolStr g then toLowerCase g else []))"
  "getProp (getProp (Some (votesitePlaceholders a b c d e f g i)) ''voteDelayDailyHour'') ''default''
     = Some (JStr (if isIntStr i then i else []))"
  by (simp_all add: votesitePlaceholders_def placeholder_def)

lemma votesiteRequest_placeholders:
  assumes "votesiteRequest f = Inr (p, meta)"
  shows "getProp (Some meta) ''placeholders'' =
     Some (votesitePlaceholders
       (trim (fieldOr f ''VoteSite key (siteKey)''))
       (trim (fieldOr f ''Display name (displayName)''))
       (trim (fieldOr f ''ServiceSite (required)''))
       (if trim (fieldOr f ''Default VoteURL placeholder'') \<noteq> []
             then trim (fieldOr f ''Default VoteURL placeholder'')
             else ''ADD_VOTE_URL_LATER'')
       (trim (fieldOr f ''VoteDelay (optional)''))
       (trim (fieldOr f ''WaitUntilVoteDelay (optional)''))
       (trim (fieldOr f ''VoteDelayDaily (optional)''))
       (trim (fieldOr f ''VoteDelayDailyHour (optional)'')))"
  using assms
  by (auto simp add: votesiteRequest_def Let_def split: if_splits)

text \<open>Claim C2, amended: the placeholders of a VoteSite document are the eight slots
  \<open>siteKey\<close>, \<open>displayName\<close>, \<open>serviceSite\<close>, \<open>voteURL\<close>, \<open>voteDelay\<close>,
  \<open>waitUntilVoteDelay\<close>, \<open>voteDelayDaily\<close>, \<open>voteDelayDailyHour\<close>. The default of
  \<open>voteDelay\<close> is the trimmed value supplied, whatever its form; the defaults of
  \<open>waitUntilVoteDelay\<close> and \<open>voteDelayDaily\<close> are the trimmed value in lower case when that
  is \<open>true\<close> or \<open>false\<close>, and empty otherwise; the default of \<open>voteDelayDailyHour\<close> is
  the trimmed value when it is a non-empty string of digits, and empty otherwise.\<close>

theorem placeholder_defaults:
  assumes "votesiteRequest f = Inr (p, meta)"
  shows "slotNames meta = [''siteKey'', ''displayName'', ''serviceSite'', ''voteURL'', ''voteDelay'',
                 ''waitUntilVoteDelay'', ''voteDelayDaily'', ''voteDelayDailyHour'']
    \<and> defaultOf meta ''voteDelay'' = Some (JStr (trim (fieldOr f ''VoteDelay (optional)'')))
    \<and> defaultOf meta ''waitUntilVoteDelay'' =
        Some (JStr (let v = toLowerCase (trim (fieldOr f ''WaitUntilVoteDelay (optional)''))
                    in if v = ''true'' \<or> v = ''false'' then v else []))
    \<and> defaultOf meta ''voteDelayDaily'' =
        Some (JStr (let v = toLowerCase (trim (fieldOr f ''VoteDelayDaily (optional)''))
                    in if v = ''true'' \<or> v = ''false'' then v else []))
    \<and> defaultOf meta ''voteDelayDailyHour'' =
        Some (JStr (let v = trim (fieldOr f ''VoteDelayDailyHour (optional)'')
                    in if v \<noteq> [] \<and> list_all isDigit v then v else []))"
proof -
  note ph = votesiteRequest_placeholders[OF assms]
  have 1: "slotNames meta = [''siteKey'', ''displayName'', ''serviceSite'', ''voteURL'', ''voteDelay'',
                 ''waitUntilVoteDelay'', ''voteDelayDaily'', ''voteDelayDailyHour'']"
    unfolding slotNames_def ph by (simp add: votesitePlaceholders_def)
  have 2: "defaultOf meta ''voteDelay'' = Some (JStr (trim (fieldOr f ''VoteDelay (optional)'')))"
    unfolding defaultOf_def ph by (rule votesitePlaceholders_defaults(1))
  have 3: "defaultOf meta ''waitUntilVoteDelay'' =
        Some (JStr (let v = toLowerCase (trim (fieldOr f ''WaitUntilVoteDelay (optional)''))
                    in if v = ''true'' \<or> v = ''false'' then v else []))"
    unfolding defaultOf_def ph votesitePlaceholders_defaults(2) isBoolStr_trim
    by (simp add: Let_def)
  have 4: "defaultOf meta ''voteDelayDaily'' =
        Some (JStr (let v = toLowerCase (trim (fieldOr f ''VoteDelayDaily (optional)''))
                    in if v = ''true'' \<or> v = ''false'' then v else []))"
    unfolding defaultOf_def ph votesitePlaceholders_defaults(3) isBoolStr_trim
    by (simp add: Let_def)
  have 5: "defaultOf meta ''voteDelayDailyHour'' =
        Some (JStr (let v = trim (fieldOr f ''VoteDelayDailyHour (optional)'')
                    in if v \<noteq> [] \<and> list_all isDigit v then v else []))"
    unfolding defaultOf_def ph votesitePlaceholders_defaults(4) isIntStr_trim
    by (simp add: Let_def)
  from 1 2 3 4 5 show ?thesis by blast
qed

text \<open>Claim C2 as stated fails: the value \<open>abc\<close> supplied for \<open>VoteDelay\<close> is neither a
  boolean string nor an integer string, and it is the default of the slot \<open>voteDelay\<close>.\<close>

theorem placeholders_counterexample:
  "map_sum id (\<lambda>r. defaultOf (snd r) ''voteDelay'')
       (votesiteRequest (parseIssueForm votesiteBody)) = Inr (Some (JStr ''abc''))
   \<and> \<not> isIntStr ''abc'' \<and> \<not> isBoolStr ''abc'' \<and> ''abc'' \<noteq> []"
  by code_simp

text \<open>Claim C2, amended, at the VoteSite form.\<close>

theorem placeholder_defaults_witness:
  "votesiteRequest (parseIssueForm votesiteBody)
     = Inr ([''presets'', ''votesites'', ''example_com.meta.json''], votesiteDoc)
   \<and> slotNames votesiteDoc = [''siteKey'', ''displayName'', ''serviceSite'', ''voteURL'',
        ''voteDelay'', ''waitUntilVoteDelay'', ''voteDelayDaily'', ''voteDelayDailyHour'']
   \<and> defaultOf votesiteDoc ''voteDelay'' = Some (JStr ''abc'')
   \<and> defaultOf votesiteDoc ''waitUntilVoteDelay'' = Some (JStr ''true'')
   \<and> defaultOf votesiteDoc ''voteDelayDaily'' = Some (JStr [])
   \<and> defaultOf votesiteDoc ''voteDelayDailyHour'' = Some (JStr ''7'')"
proof -
  have r: "votesiteRequest (parseIssueForm votesiteBody)
     = Inr ([''presets'', ''votesites'', ''example_com.meta.json''], votesiteDoc)" by code_simp
  have v: "trim (fieldOr (parseIssueForm votesiteBody) ''VoteDelay (optional)'') = ''abc''"
    "(let v = toLowerCase (trim (fieldOr (parseIssueForm votesiteBody) ''WaitUntilVoteDelay (optional)''))
      in if v = ''true'' \<or> v = ''false'' then v else []) = ''true''"
    "(let v = toLowerCase (trim (fieldOr (parseIssueForm votesiteBody) ''VoteDelayDaily (optional)''))
      in if v = ''true'' \<or> v = ''false'' then v else []) = []"
    "(let v = trim (fieldOr (parseIssueForm votesiteBody) ''VoteDelayDailyHour (optional)'')
      in if v \<noteq> [] \<and> list_all isDigit v then v else []) = ''7''"
    by code_simp+
  from placeholder_defaults[OF r] r show ?thesis unfolding v by blast
qed

subsection \<open>Rejected requests, the issue number\<close>

text \<open>Claim C7: a request of a kind other than \<open>votesite\<close> whose reward type, trimmed and
  in lower case, is neither \<open>commands\<close> nor \<open>messages\<close> ends with an error and leaves the
  file system as it was: the error of the first check that fails, which is the one on the
  reward type when the issue number, the preset id and the display name pass theirs.\<close>

theorem reward_type_rejected:
  assumes "presetKind e \<noteq> ''votesite''"
    and "toLowerCase (trim (fieldOr (parseIssueForm (orEmpty (ISSUE_BODY e))) ''Reward type''))
           \<notin> {''commands'', ''messages''}"
  shows "generatorMain h e root =
    (Some (Error
       (if orEmpty (ISSUE_NUMBER e) = [] then ''Missing ISSUE_NUMBER env var''
        else if \<not> startsWith (trim (fieldOr (parseIssueForm (orEmpty (ISSUE_BODY e))) ''Preset ID''))
                    ''reward:''
          then ''Preset ID must start with reward:''
        else if trim (fieldOr (parseIssueForm (orEmpty (ISSUE_BODY e))) ''Display name'') = []
          then ''display name is required''
        else ''Reward type must be commands or messages'')),
     root)"
  using assms by (simp add: generatorMain_def writePreset_def rewardRequest_def Let_def)

text \<open>Claim C7 at the Reward form of type \<open>music\<close>.\<close>

theorem reward_type_rejected_witness:
  "presetKind rewardEnv \<noteq> ''votesite''
   \<and> toLowerCase (trim (fieldOr (parseIssueForm (orEmpty (ISSUE_BODY rewardEnv))) ''Reward type''))
       = ''music''
   \<and> generatorMain exampleHost rewardEnv exampleTree
       = (Some (Error ''Reward type must be commands or messages''), exampleTree)"
proof -
  have k: "presetKind rewardEnv \<noteq> ''votesite''" by code_simp
  have t: "toLowerCase (trim (fieldOr (parseIssueForm (orEmpty (ISSUE_BODY rewardEnv))) ''Reward type''))
       = ''music''" by code_simp
  then have n: "toLowerCase (trim (fieldOr (parseIssueForm (orEmpty (ISSUE_BODY rewardEnv))) ''Reward type''))
           \<notin> {''commands'', ''messages''}" by simp
  have c: "(if orEmpty (ISSUE_NUMBER rewardEnv) = [] then ''Missing ISSUE_NUMBER env var''
        else if \<not> startsWith (trim (fieldOr (parseIssueForm (orEmpty (ISSUE_BODY rewardEnv))) ''Preset ID''))
                    ''reward:''
          then ''Preset ID must start with reward:''
        else if trim (fieldOr (parseIssueForm (orEmpty (ISSUE_BODY rewardEnv))) ''Display name'') = []
          then ''display name is required''
        else ''Reward type must be commands or messages'')
      = ''Reward type must be commands or messages''" by code_simp
  from reward_type_rejected[OF k n, of exampleHost exampleTree] k t show ?thesis
    unfolding c by blast
qed

text \<open>Claim C10: two runs of the generator that differ only in the value of
  \<open>ISSUE_NUMBER\<close>, not empty in either, end the same way and leave the same file system.\<close>

theorem issue_number_not_read:
  assumes "n1 \<noteq> []" and "n2 \<noteq> []"
  shows "generatorMain h (e\<lparr>ISSUE_NUMBER := Some n1\<rparr>) root
       = generatorMain h (e\<lparr>ISSUE_NUMBER := Some n2\<rparr>) root"
  using assms by (simp add: generatorMain_def presetKind_def orEmpty_def)

text \<open>Claim C10 at the VoteSite request.\<close>

theorem issue_number_not_read_witness:
  "''12'' \<noteq> [] \<and> ''977'' \<noteq> []
   \<and> generatorMain exampleHost (votesiteEnv\<lparr>ISSUE_NUMBER := Some ''12''\<rparr>) exampleTree
     = generatorMain exampleHost (votesiteEnv\<lparr>ISSUE_NUMBER := Some ''977''\<rparr>) exampleTree"
proof -
  have 1: "''12'' \<noteq> []" and 2: "''977'' \<noteq> []" by simp_all
  from issue_number_not_read[OF 1 2] 1 2 show ?thesis by blast
qed

subsection \<open>Writing over an existing preset\<close>

lemma mkdirp_existing:
  "resolve root p = Some (Dir sub) \<Longrightarrow> mkdirp p root = Inr root"
proof (induction p arbitrary: root sub)
  case Nil
  show ?case by simp
next
  case (Cons c cs)
  from Cons.prems obtain s where m: "map_of root c = Some (Dir s)" and r: "resolve s cs = Some (Dir sub)"
    by (auto split: option.splits node.splits if_splits)
  from Cons.IH[OF r] have "mkdirp cs s = Inr s" .
  with m show ?case by (simp add: update_triv)
qed

lemma resolve_butlast:
  "resolve root p = Some (File x) \<Longrightarrow> \<exists>sub. resolve root (butlast p) = Some (Dir sub)"
proof (induction p arbitrary: root)
  case Nil
  then show ?case by simp
next
  case (Cons c cs)
  show ?case
  proof (cases "cs = []")
    case True
    then show ?thesis by simp
  next
    case False
    with Cons.prems obtain s where m: "map_of root c = Some (Dir s)" and r: "resolve s cs = Some (File x)"
      by (auto split: option.splits node.splits if_splits)
    from Cons.IH[OF r] m False show ?thesis by simp
  qed
qed

lemma writeFileSync_replaces:
  "resolve root p = Some (File x) \<Longrightarrow>
   \<exists>root'. writeFileSync p content root = Inr root' \<and> resolve root' p = Some (File content)"
proof (induction p arbitrary: root)
  case Nil
  then show ?case by simp
next
  case (Cons c cs)
  show ?case
  proof (cases cs)
    case Nil
    with Cons.prems have "map_of root c = Some (File x)"
      by (auto split: option.splits node.splits if_splits)
    with Nil show ?thesis by (simp add: update_conv')
  next
    case (Cons d ds)
    with Cons.prems obtain s where m: "map_of root c = Some (Dir s)" and r: "resolve s cs = Some (File x)"
      by (auto split: option.splits node.splits if_splits)
    from Cons.IH[OF r] obtain s' where "writeFileSync cs content s = Inr s'"
      "resolve s' cs = Some (File content)" by blast
    with m Cons show ?thesis by (simp add: update_conv')
  qed
qed

lemma writeFile_replaces:
  assumes "readFile root p = Some old"
  shows "\<exists>root'. writeFile p content root = (None, root') \<and> readFile root' p = Some content"
proof -
  from assms have r: "resolve root p = Some (File old)"
    by (auto simp add: readFile_def split: option.splits node.splits)
  from resolve_butlast[OF r] obtain sub where "resolve root (butlast p) = Some (Dir sub)" ..
  then have m: "mkdirp (butlast p) root = Inr root" by (rule mkdirp_existing)
  from writeFileSync_replaces[OF r, of content] obtain root' where
    "writeFileSync p content root = Inr root'" "resolve root' p = Some (File content)" by blast
  with m show ?thesis by (simp add: writeFile_def readFile_def)
qed

lemma main_keeps_files:
  assumes "c \<noteq> ''index.json''"
  shows "readFile (snd (main h root)) (c # cs) = readFile root (c # cs)"
proof (cases "build h root")
  case (Inl e)
  then show ?thesis by (simp add: main_def)
next
  case (Inr ix)
  show ?thesis
  proof (cases "writeFileSync [''index.json''] (stringify h (index_json ix) @ [CHR 0x0A]) root")
    case (Inl e)
    with Inr show ?thesis by (simp add: main_def del: writeFileSync.simps)
  next
    case r: (Inr root')
    then have "root' = AList.update ''index.json'' (File (stringify h (index_json ix) @ [CHR 0x0A])) root"
      by (auto split: option.splits node.splits)
    with Inr r assms show ?thesis
      by (simp add: main_def readFile_def update_conv' del: writeFileSync.simps)
  qed
qed

lemma votesiteRequest_path:
  "votesiteRequest f = Inr (p, meta) \<Longrightarrow> \<exists>cs. p = ''presets'' # cs"
  by (auto simp add: votesiteRequest_def Let_def split: if_splits)

text \<open>Claim C1 fails on the code: when the preset file of a VoteSite request exists, the run
  replaces its content with the new document.\<close>

theorem existing_preset_overwritten:
  assumes "orEmpty (ISSUE_NUMBER e) \<noteq> []"
    and "presetKind e = ''votesite''"
    and "votesiteRequest (parseIssueForm (orEmpty (ISSUE_BODY e))) = Inr (p, meta)"
    and "readFile root p = Some old"
  shows "readFile (snd (generatorMain h e root)) p = Some (stringify h meta @ [CHR 0x0A])"
proof -
  from writeFile_replaces[OF assms(4), of "stringify h meta @ [CHR 0x0A]"]
  obtain root1 where w: "writeFile p (stringify h meta @ [CHR 0x0A]) root = (None, root1)"
    and r: "readFile root1 p = Some (stringify h meta @ [CHR 0x0A])" by blast
  from votesiteRequest_path[OF assms(3)] obtain cs where p: "p = ''presets'' # cs" ..
  have k: "readFile (snd (main h root1)) p = readFile root1 p"
    unfolding p by (rule main_keeps_files) simp
  have "generatorMain h e root =
      (case main h root1 of
         (Some err, root2) \<Rightarrow> (Some (CommandFailed ''node tools/build-index.mjs''), root2)
       | (None, root2) \<Rightarrow> (None, root2))"
    using assms(1-3) w by (simp add: generatorMain_def writePreset_def)
  then have "snd (generatorMain h e root) = snd (main h root1)"
    by (simp split: prod.splits option.splits)
  with k r show ?thesis by simp
qed

text \<open>Claim C1 fails at the VoteSite request in the example repository: the content
  \<open>votesite-doc\<close> of \<open>presets/votesites/example_com.meta.json\<close> is replaced.\<close>

theorem existing_preset_overwritten_witness:
  "orEmpty (ISSUE_NUMBER votesiteEnv) \<noteq> []
   \<and> presetKind votesiteEnv = ''votesite''
   \<and> votesiteRequest (parseIssueForm (orEmpty (ISSUE_BODY votesiteEnv)))
       = Inr ([''presets'', ''votesites'', ''example_com.meta.json''], votesiteDoc)
   \<and> readFile exampleTree [''presets'', ''votesites'', ''example_com.meta.json'']
       = Some ''votesite-doc''
   \<and> readFile (snd (generatorMain exampleHost votesiteEnv exampleTree))
        [''presets'', ''votesites'', ''example_com.meta.json'']
       = Some (''{}'' @ lf)
   \<and> ''{}'' @ lf \<noteq> ''votesite-doc''"
proof -
  have n: "orEmpty (ISSUE_NUMBER votesiteEnv) \<noteq> []" by code_simp
  have k: "presetKind votesiteEnv = ''votesite''" by code_simp
  have r: "votesiteRequest (parseIssueForm (orEmpty (ISSUE_BODY votesiteEnv)))
       = Inr ([''presets'', ''votesites'', ''example_com.meta.json''], votesiteDoc)" by code_simp
  have f: "readFile exampleTree [''presets'', ''votesites'', ''example_com.meta.json'']
       = Some ''votesite-doc''" by code_simp
  have s: "stringify exampleHost votesiteDoc @ [CHR 0x0A] = ''{}'' @ lf"
    by (simp add: exampleHost_def lf_def)
  have d: "''{}'' @ lf \<noteq> ''votesite-doc''" by (simp add: lf_def)
  from existing_preset_overwritten[OF n k r f, of exampleHost] n k r f d show ?thesis
    unfolding s by blast
qed

end
